theory Spec2Isabelle
  imports Main "HOL-Library.Word" "HOL-Library.Signed_Division"
begin

unbundle bit_operations_syntax

section \<open>Conway's Game of Life in C: a shallow embedding of gameOfLife.c\<close>

text \<open>
  The C types are modelled as follows. A \<open>char\<close> (cell states, error codes, bit indices,
  the out-of-bounds rule and every storage unit) is an 8-bit word. A \<open>long long\<close> is an
  \<open>int\<close>; the places where C's signed arithmetic could leave the 64-bit range are checked
  explicitly and yield the fault \<open>SignedOverflow\<close>. A \<open>size_t\<close> is a \<open>nat\<close>. The
  two-dimensional array \<open>char **origin\<close> is a list of rows, each a list of chars; a
  \<open>char *\<close> into it is a pair of indices, and \<open>NULL\<close> is \<open>None\<close>.

  Undefined behaviour of the C program (division by zero, signed overflow, a write through
  \<open>NULL\<close>, an access outside an allocated array) is a value \<open>Some (Inl fault)\<close>; a call
  that never returns is \<open>None\<close>; a normal return of \<open>v\<close> is \<open>Some (Inr v)\<close>.

  A grid carries its array by value: the two grids of a game own separate arrays, as
  \<open>createGame\<close> allocates them. The messages that the functions print to \<open>stderr\<close> and
  the release of memory (\<open>destroyGrid\<close>, \<open>destroyGame\<close>) are not modelled, nor are the
  functions that print a grid and the demos.
\<close>

type_synonym c_char = "8 word"
type_synonym ErrorChar = c_char
type_synonym CellState = c_char

definition GOL__CELL_STATE__OFF :: CellState where "GOL__CELL_STATE__OFF = 0"
definition GOL__CELL_STATE__ON :: CellState where "GOL__CELL_STATE__ON = 1"
definition GOL__CELL_STATE__INVALID :: CellState where "GOL__CELL_STATE__INVALID = 2"

definition GOL__OOBR__ALL_OFF :: c_char where "GOL__OOBR__ALL_OFF = 0"
definition GOL__OOBR__ALL_ON :: c_char where "GOL__OOBR__ALL_ON = 1"
definition GOL__OOBR__TORUS :: c_char where "GOL__OOBR__TORUS = 2"

text \<open>\<open>sizeof( char )\<close> is 1 in every C implementation; \<open>CHAR_BIT\<close> is the number of bits
  of a char. The program only ever uses the former.\<close>

definition sizeof_char :: int where "sizeof_char = 1"
definition CHAR_BIT :: int where "CHAR_BIT = 8"

definition LLONG_MIN :: int where "LLONG_MIN = - (2 ^ 63)"
definition LLONG_MAX :: int where "LLONG_MAX = 2 ^ 63 - 1"

datatype fault = DivisionByZero | SignedOverflow | NullDereference | InvalidAccess

type_synonym 'a outcome = "(fault + 'a) option"

definition done_with :: "'a \<Rightarrow> 'a outcome" where
  "done_with v = Some (Inr v)"

definition undefined_behaviour :: "fault \<Rightarrow> 'a outcome" where
  "undefined_behaviour e = Some (Inl e)"

definition and_then :: "'a outcome \<Rightarrow> ('a \<Rightarrow> 'b outcome) \<Rightarrow> 'b outcome" where
  "and_then m f = (case m of None \<Rightarrow> None | Some (Inl e) \<Rightarrow> Some (Inl e) | Some (Inr v) \<Rightarrow> f v)"

record Grid =
  origin :: "c_char list list"
  gridSizeX :: int
  gridSizeY :: int
  arraySizeX :: nat
  arraySizeY :: nat
  outOfBoundsRule :: c_char

datatype GridPtr = PtrGridA | PtrGridB | PtrElsewhere

record Game =
  gridA :: Grid
  gridB :: Grid
  currentGridPtr :: GridPtr

record CellIndex =
  storageCharPtr :: "(nat \<times> nat) option"
  bitIndex :: c_char

record lldiv_t =
  quot :: int
  rem :: int

subsection \<open>Modulo functions\<close>

text \<open>A \<open>long long\<close> result of an addition or subtraction: outside the 64-bit range the C
  expression overflows.\<close>

definition ll_result :: "int \<Rightarrow> int outcome" where
  "ll_result v = (if LLONG_MIN \<le> v \<and> v \<le> LLONG_MAX then done_with v
                  else undefined_behaviour SignedOverflow)"

text \<open>The C library's \<open>lldiv\<close>: the quotient truncates towards zero and the remainder
  has the sign of the dividend. Its arguments are \<open>long long\<close> values, and on those the only
  quotient that is not representable is \<open>LLONG_MIN / -1\<close>.\<close>

definition lldiv :: "int \<Rightarrow> int \<Rightarrow> lldiv_t outcome" where
  "lldiv numer denom =
     (if denom = 0 then undefined_behaviour DivisionByZero
      else if numer = LLONG_MIN \<and> denom = - 1 then undefined_behaviour SignedOverflow
      else done_with \<lparr>quot = numer sdiv denom, rem = numer smod denom\<rparr>)"

definition lldivGreater :: "int \<Rightarrow> int \<Rightarrow> lldiv_t outcome" where
  "lldivGreater dividend divisor =
     and_then (lldiv dividend divisor) (\<lambda>normal.
       if rem normal = 0 then done_with \<lparr>quot = quot normal, rem = rem normal\<rparr>
       else if (dividend \<ge> 0 \<and> divisor \<ge> 0) \<or> (dividend < 0 \<and> divisor < 0) then
         and_then (ll_result (quot normal + 1)) (\<lambda>q.
         and_then (ll_result (rem normal - divisor)) (\<lambda>r.
           done_with \<lparr>quot = q, rem = r\<rparr>))
       else
         and_then (ll_result (quot normal - 1)) (\<lambda>q.
         and_then (ll_result (rem normal + divisor)) (\<lambda>r.
           done_with \<lparr>quot = q, rem = r\<rparr>)))"

definition lldivPositive :: "int \<Rightarrow> int \<Rightarrow> lldiv_t outcome" where
  "lldivPositive dividend divisor =
     and_then (lldiv dividend divisor) (\<lambda>normal.
       if rem normal \<ge> 0 then done_with normal
       else
         and_then (ll_result (quot normal - 1)) (\<lambda>q.
         and_then (ll_result (rem normal + divisor)) (\<lambda>r.
           done_with \<lparr>quot = q, rem = r\<rparr>)))"

subsection \<open>Grid: create\<close>

text \<open>\<open>createGrid\<close> returns a pointer to the new grid, or \<open>NULL\<close> (here \<open>None\<close>) when a
  size is negative or memory cannot be obtained. The argument \<open>mem_ok\<close> says whether the
  calls of \<open>malloc\<close> and \<open>calloc\<close> succeed; \<open>calloc\<close> hands out zeroed chars.\<close>

definition createGrid :: "bool \<Rightarrow> int \<Rightarrow> int \<Rightarrow> c_char \<Rightarrow> Grid option outcome" where
  "createGrid mem_ok sizeX sizeY rule =
     (if sizeX < 0 \<or> sizeY < 0 then done_with None
      else if \<not> mem_ok then done_with None
      else
        and_then (lldivGreater sizeY sizeof_char) (\<lambda>d.
          let aSizeX = nat sizeX; aSizeY = nat (quot d)
          in done_with (Some \<lparr>origin = replicate aSizeX (replicate aSizeY 0),
                               gridSizeX = sizeX, gridSizeY = sizeY,
                               arraySizeX = aSizeX, arraySizeY = aSizeY,
                               outOfBoundsRule = rule\<rparr>)))"

subsection \<open>Grid: getter and setter\<close>

text \<open>The C operators \<open>&&\<close> and \<open>!\<close> on chars: their result is 0 or 1.\<close>

definition logical_and :: "c_char \<Rightarrow> c_char \<Rightarrow> c_char" where
  "logical_and a b = (if a \<noteq> 0 \<and> b \<noteq> 0 then 1 else 0)"

definition logical_not :: "c_char \<Rightarrow> c_char" where
  "logical_not a = (if a = 0 then 1 else 0)"

text \<open>\<open>(char) ( 1 << bitIndex )\<close>\<close>

definition bit_mask :: "c_char \<Rightarrow> c_char" where
  "bit_mask b = push_bit (unat b) 1"

partial_function (option) selsectCell :: "Grid \<Rightarrow> int \<Rightarrow> int \<Rightarrow> (fault + CellIndex) option" where
  "selsectCell g x y =
     (if x \<ge> 0 \<and> y \<ge> 0 \<and> x < gridSizeX g \<and> y < gridSizeY g then
        (case lldiv y sizeof_char of
           None \<Rightarrow> None
         | Some (Inl e) \<Rightarrow> Some (Inl e)
         | Some (Inr division) \<Rightarrow>
             if nat x < length (origin g)
             then Some (Inr \<lparr>storageCharPtr = Some (nat x, nat (quot division)),
                             bitIndex = word_of_int (rem division)\<rparr>)
             else Some (Inl InvalidAccess))
      else if outOfBoundsRule g = GOL__OOBR__TORUS then
        (case lldivPositive x (gridSizeX g) of
           None \<Rightarrow> None
         | Some (Inl e) \<Rightarrow> Some (Inl e)
         | Some (Inr dx) \<Rightarrow>
            (case lldivPositive y (gridSizeY g) of
               None \<Rightarrow> None
             | Some (Inl e) \<Rightarrow> Some (Inl e)
             | Some (Inr dy) \<Rightarrow> selsectCell g (rem dx) (rem dy)))
      else Some (Inr \<lparr>storageCharPtr = None, bitIndex = word_of_int sizeof_char\<rparr>))"

text \<open>Reading and writing through a \<open>char *\<close>.\<close>

definition load :: "Grid \<Rightarrow> (nat \<times> nat) option \<Rightarrow> c_char outcome" where
  "load g p =
     (case p of
        None \<Rightarrow> undefined_behaviour NullDereference
      | Some (i, j) \<Rightarrow>
          if i < length (origin g) \<and> j < length (origin g ! i)
          then done_with (origin g ! i ! j)
          else undefined_behaviour InvalidAccess)"

definition store :: "Grid \<Rightarrow> (nat \<times> nat) option \<Rightarrow> c_char \<Rightarrow> Grid outcome" where
  "store g p v =
     (case p of
        None \<Rightarrow> undefined_behaviour NullDereference
      | Some (i, j) \<Rightarrow>
          if i < length (origin g) \<and> j < length (origin g ! i)
          then done_with (g\<lparr>origin := (origin g)[i := (origin g ! i)[j := v]]\<rparr>)
          else undefined_behaviour InvalidAccess)"

definition getCell :: "Grid \<Rightarrow> int \<Rightarrow> int \<Rightarrow> CellState outcome" where
  "getCell g x y =
     and_then (selsectCell g x y) (\<lambda>targetIndex.
       if storageCharPtr targetIndex = None then
         if bitIndex targetIndex \<noteq> word_of_int sizeof_char then done_with GOL__CELL_STATE__INVALID
         else if outOfBoundsRule g = GOL__OOBR__ALL_OFF then done_with GOL__CELL_STATE__OFF
         else if outOfBoundsRule g = GOL__CELL_STATE__ON then done_with GOL__CELL_STATE__ON
         else done_with GOL__CELL_STATE__INVALID
       else
         and_then (load g (storageCharPtr targetIndex)) (\<lambda>c.
           if logical_and c (bit_mask (bitIndex targetIndex)) = 0
           then done_with GOL__CELL_STATE__OFF
           else done_with GOL__CELL_STATE__ON))"

text \<open>\<open>setCell\<close> returns its error code together with the grid as it is after the call.\<close>

definition setCell :: "Grid \<Rightarrow> int \<Rightarrow> int \<Rightarrow> CellState \<Rightarrow> (ErrorChar \<times> Grid) outcome" where
  "setCell g x y newState =
     and_then (selsectCell g x y) (\<lambda>targetIndex.
       if bitIndex targetIndex = word_of_int sizeof_char then done_with (1, g)
       else if newState = GOL__CELL_STATE__OFF then
         and_then (load g (storageCharPtr targetIndex)) (\<lambda>c.
         and_then (store g (storageCharPtr targetIndex)
                     (c AND logical_not (bit_mask (bitIndex targetIndex)))) (\<lambda>g'.
           done_with (0, g')))
       else if newState = GOL__CELL_STATE__ON then
         and_then (load g (storageCharPtr targetIndex)) (\<lambda>c.
         and_then (store g (storageCharPtr targetIndex)
                     (c OR bit_mask (bitIndex targetIndex))) (\<lambda>g'.
           done_with (0, g')))
       else done_with (2, g))"

subsection \<open>Grid: miscellaneous\<close>

text \<open>\<open>rand()\<close> is modelled by the sequence \<open>rnd\<close> of the values it is going to return and
  the number \<open>k\<close> of calls made so far. The loops keep the grid sizes in local variables,
  which are parameters here. The error code of \<open>setCell\<close> is dropped, as in the C code.

  The loops below continue under \<open>and_then\<close>; the congruence rule lets their definitions
  see that the continuation only runs on a normal return.\<close>

lemma and_then_cong [fundef_cong]:
  "m = m' \<Longrightarrow> (\<And>v. m' = Some (Inr v) \<Longrightarrow> f v = f' v) \<Longrightarrow> and_then m f = and_then m' f'"
  by (auto simp: and_then_def split: option.splits sum.splits)

function randomizeGrid_j :: "(nat \<Rightarrow> int) \<Rightarrow> int \<Rightarrow> int \<Rightarrow> int \<Rightarrow> nat \<times> Grid \<Rightarrow> (nat \<times> Grid) outcome" where
  "randomizeGrid_j rnd sizeY i j kg =
     (if j < sizeY then
        and_then (if rnd (fst kg) smod 2 \<noteq> 0
                  then setCell (snd kg) i j GOL__CELL_STATE__OFF
                  else setCell (snd kg) i j GOL__CELL_STATE__ON) (\<lambda>r.
          randomizeGrid_j rnd sizeY i (j + 1) (Suc (fst kg), snd r))
      else done_with kg)"
  by pat_completeness auto
termination
  by (relation "measure (\<lambda>(rnd, sizeY, i, j, kg). nat (sizeY - j))") auto

function randomizeGrid_i :: "(nat \<Rightarrow> int) \<Rightarrow> int \<Rightarrow> int \<Rightarrow> int \<Rightarrow> nat \<times> Grid \<Rightarrow> (nat \<times> Grid) outcome" where
  "randomizeGrid_i rnd sizeX sizeY i kg =
     (if i < sizeX then
        and_then (randomizeGrid_j rnd sizeY i 0 kg) (\<lambda>kg'.
          randomizeGrid_i rnd sizeX sizeY (i + 1) kg')
      else done_with kg)"
  by pat_completeness auto
termination
  by (relation "measure (\<lambda>(rnd, sizeX, sizeY, i, kg). nat (sizeX - i))") auto

definition randomizeGrid :: "(nat \<Rightarrow> int) \<Rightarrow> nat \<times> Grid \<Rightarrow> (nat \<times> Grid) outcome" where
  "randomizeGrid rnd kg = randomizeGrid_i rnd (gridSizeX (snd kg)) (gridSizeY (snd kg)) 0 kg"

subsection \<open>Game: create\<close>

text \<open>\<open>createGame\<close> returns \<open>NULL\<close> when the game itself cannot be allocated. When one of
  the grids cannot be created it frees the game and returns the pointer it has just freed.\<close>

datatype GameHandle = NullGame | FreedGame | LiveGame Game

definition createGame :: "bool \<Rightarrow> bool \<Rightarrow> bool \<Rightarrow> int \<Rightarrow> int \<Rightarrow> c_char \<Rightarrow> GameHandle outcome" where
  "createGame mem_game mem_a mem_b sizeX sizeY rule =
     (if \<not> mem_game then done_with NullGame
      else
        and_then (createGrid mem_a sizeX sizeY rule) (\<lambda>gridAPtr.
          case gridAPtr of
            None \<Rightarrow> done_with FreedGame
          | Some a \<Rightarrow>
              and_then (createGrid mem_b sizeX sizeY rule) (\<lambda>gridBPtr.
                case gridBPtr of
                  None \<Rightarrow> done_with FreedGame
                | Some b \<Rightarrow>
                    done_with (LiveGame \<lparr>gridA = a, gridB = b, currentGridPtr = PtrGridA\<rparr>))))"

subsection \<open>Game: iterate\<close>

text \<open>The body of the two loops of \<open>iterateGame\<close> for the cell \<open>(i, j)\<close>: it reads the
  source grid and writes the target grid. The sum of the eight states is a \<open>char\<close>; it is
  at most 16. The loop counters stay below the grid sizes, so \<open>i + 1\<close> and \<open>j + 1\<close> are
  \<open>long long\<close> values whenever the sizes are.\<close>

definition iterateGame_cell :: "Grid \<Rightarrow> Grid \<Rightarrow> int \<Rightarrow> int \<Rightarrow> Grid outcome" where
  "iterateGame_cell src trg i j =
     and_then (getCell src (i - 1) (j - 1)) (\<lambda>n1.
     and_then (getCell src (i - 1) j) (\<lambda>n2.
     and_then (getCell src (i - 1) (j + 1)) (\<lambda>n3.
     and_then (getCell src i (j - 1)) (\<lambda>n4.
     and_then (getCell src i (j + 1)) (\<lambda>n5.
     and_then (getCell src (i + 1) (j - 1)) (\<lambda>n6.
     and_then (getCell src (i + 1) j) (\<lambda>n7.
     and_then (getCell src (i + 1) (j + 1)) (\<lambda>n8.
       let neighbors = 0 + (n1 + n2 + n3 + n4 + n5 + n6 + n7 + n8) in
       and_then (getCell src i j) (\<lambda>c.
         and_then
           (if c = GOL__CELL_STATE__OFF then
              if neighbors = 3 then setCell trg i j GOL__CELL_STATE__ON
              else setCell trg i j GOL__CELL_STATE__OFF
            else
              if neighbors < 2 \<or> neighbors > 3 then setCell trg i j GOL__CELL_STATE__OFF
              else setCell trg i j GOL__CELL_STATE__ON)
           (\<lambda>r. done_with (snd r)))))))))))"

function iterateGame_j :: "Grid \<Rightarrow> int \<Rightarrow> int \<Rightarrow> int \<Rightarrow> Grid \<Rightarrow> Grid outcome" where
  "iterateGame_j src sizeY i j trg =
     (if j < sizeY then
        and_then (iterateGame_cell src trg i j) (\<lambda>trg'.
          iterateGame_j src sizeY i (j + 1) trg')
      else done_with trg)"
  by pat_completeness auto
termination
  by (relation "measure (\<lambda>(src, sizeY, i, j, trg). nat (sizeY - j))") auto

function iterateGame_i :: "Grid \<Rightarrow> int \<Rightarrow> int \<Rightarrow> int \<Rightarrow> Grid \<Rightarrow> Grid outcome" where
  "iterateGame_i src sizeX sizeY i trg =
     (if i < sizeX then
        and_then (iterateGame_j src sizeY i 0 trg) (\<lambda>trg'.
          iterateGame_i src sizeX sizeY (i + 1) trg')
      else done_with trg)"
  by pat_completeness auto
termination
  by (relation "measure (\<lambda>(src, sizeX, sizeY, i, trg). nat (sizeX - i))") auto

definition iterateGame :: "Game \<Rightarrow> Game outcome" where
  "iterateGame gm =
     (case currentGridPtr gm of
        PtrGridA \<Rightarrow>
          and_then (iterateGame_i (gridA gm) (gridSizeX (gridA gm)) (gridSizeY (gridA gm)) 0 (gridB gm))
            (\<lambda>trg. done_with (gm\<lparr>gridB := trg, currentGridPtr := PtrGridB\<rparr>))
      | PtrGridB \<Rightarrow>
          and_then (iterateGame_i (gridB gm) (gridSizeX (gridB gm)) (gridSizeY (gridB gm)) 0 (gridA gm))
            (\<lambda>trg. done_with (gm\<lparr>gridA := trg, currentGridPtr := PtrGridA\<rparr>))
      | PtrElsewhere \<Rightarrow> done_with gm)"

text \<open>The grid that \<open>currentGridPtr\<close> points at, and \<open>randomizeGame\<close>, which randomizes it.\<close>

definition currentGrid :: "Game \<Rightarrow> Grid outcome" where
  "currentGrid gm =
     (case currentGridPtr gm of
        PtrGridA \<Rightarrow> done_with (gridA gm)
      | PtrGridB \<Rightarrow> done_with (gridB gm)
      | PtrElsewhere \<Rightarrow> undefined_behaviour InvalidAccess)"

definition setCurrentGrid :: "Game \<Rightarrow> Grid \<Rightarrow> Game" where
  "setCurrentGrid gm g =
     (case currentGridPtr gm of
        PtrGridA \<Rightarrow> gm\<lparr>gridA := g\<rparr>
      | PtrGridB \<Rightarrow> gm\<lparr>gridB := g\<rparr>
      | PtrElsewhere \<Rightarrow> gm)"

definition randomizeGame :: "(nat \<Rightarrow> int) \<Rightarrow> nat \<times> Game \<Rightarrow> (nat \<times> Game) outcome" where
  "randomizeGame rnd kgm =
     and_then (currentGrid (snd kgm)) (\<lambda>g.
     and_then (randomizeGrid rnd (fst kgm, g)) (\<lambda>r.
       done_with (fst r, setCurrentGrid (snd kgm) (snd r))))"

section \<open>Notions used to state the properties\<close>

text \<open>The values of the type \<open>long long\<close>.\<close>

definition is_llong :: "int \<Rightarrow> bool" where
  "is_llong v \<longleftrightarrow> LLONG_MIN \<le> v \<and> v \<le> LLONG_MAX"

text \<open>A grid as \<open>createGrid\<close> lays it out: the sizes are non-negative \<open>long long\<close> values,
  \<open>origin\<close> has \<open>arraySizeX\<close> rows, and every row has \<open>arraySizeY\<close> chars.\<close>

definition grid_wf :: "Grid \<Rightarrow> bool" where
  "grid_wf g \<longleftrightarrow>
     0 \<le> gridSizeX g \<and> gridSizeX g \<le> LLONG_MAX \<and>
     0 \<le> gridSizeY g \<and> gridSizeY g \<le> LLONG_MAX \<and>
     arraySizeX g = nat (gridSizeX g) \<and> arraySizeY g = nat (gridSizeY g) \<and>
     length (origin g) = arraySizeX g \<and>
     (\<forall>row \<in> set (origin g). length row = arraySizeY g)"

definition in_grid :: "Grid \<Rightarrow> int \<Rightarrow> int \<Rightarrow> bool" where
  "in_grid g x y \<longleftrightarrow> 0 \<le> x \<and> x < gridSizeX g \<and> 0 \<le> y \<and> y < gridSizeY g"

text \<open>The char \<open>origin[x][y]\<close>, and the grid after \<open>origin[x][y] = v\<close>.\<close>

definition storage_char :: "Grid \<Rightarrow> int \<Rightarrow> int \<Rightarrow> c_char" where
  "storage_char g x y = origin g ! nat x ! nat y"

definition with_storage_char :: "Grid \<Rightarrow> int \<Rightarrow> int \<Rightarrow> c_char \<Rightarrow> Grid" where
  "with_storage_char g x y v = g\<lparr>origin := (origin g)[nat x := (origin g ! nat x)[nat y := v]]\<rparr>"

text \<open>The grid that a successful \<open>createGrid\<close> returns.\<close>

definition blank_grid :: "int \<Rightarrow> int \<Rightarrow> c_char \<Rightarrow> Grid" where
  "blank_grid sizeX sizeY rule =
     \<lparr>origin = replicate (nat sizeX) (replicate (nat sizeY) 0),
      gridSizeX = sizeX, gridSizeY = sizeY,
      arraySizeX = nat sizeX, arraySizeY = nat sizeY,
      outOfBoundsRule = rule\<rparr>"

text \<open>The three out-of-bounds rules.\<close>

definition valid_rule :: "c_char \<Rightarrow> bool" where
  "valid_rule r \<longleftrightarrow> r = GOL__OOBR__ALL_OFF \<or> r = GOL__OOBR__ALL_ON \<or> r = GOL__OOBR__TORUS"

text \<open>Two grids of identical width, height and boundary policy.\<close>

definition same_shape :: "Grid \<Rightarrow> Grid \<Rightarrow> bool" where
  "same_shape g h \<longleftrightarrow>
     gridSizeX h = gridSizeX g \<and> gridSizeY h = gridSizeY g \<and>
     outOfBoundsRule h = outOfBoundsRule g"

text \<open>A game as \<open>createGame\<close> builds it: two well-formed grids of the same shape under one
  of the three rules, and \<open>currentGridPtr\<close> at one of them.\<close>

definition game_wf :: "Game \<Rightarrow> bool" where
  "game_wf gm \<longleftrightarrow>
     grid_wf (gridA gm) \<and> grid_wf (gridB gm) \<and> same_shape (gridA gm) (gridB gm) \<and>
     valid_rule (outOfBoundsRule (gridA gm)) \<and> currentGridPtr gm \<noteq> PtrElsewhere"

definition grid_at :: "Game \<Rightarrow> GridPtr \<Rightarrow> Grid" where
  "grid_at gm p = (if p = PtrGridB then gridB gm else gridA gm)"

definition other_ptr :: "GridPtr \<Rightarrow> GridPtr" where
  "other_ptr p = (if p = PtrGridA then PtrGridB else PtrGridA)"

subsection \<open>The rule B3/S23, in the words of the specification\<close>

definition neighbour_offsets :: "(int \<times> int) list" where
  "neighbour_offsets = [(- 1, - 1), (- 1, 0), (- 1, 1), (0, - 1), (0, 1), (1, - 1), (1, 0), (1, 1)]"

definition is_on :: "Grid \<Rightarrow> int \<Rightarrow> int \<Rightarrow> bool" where
  "is_on g x y \<longleftrightarrow> getCell g x y = done_with GOL__CELL_STATE__ON"

definition is_off :: "Grid \<Rightarrow> int \<Rightarrow> int \<Rightarrow> bool" where
  "is_off g x y \<longleftrightarrow> getCell g x y = done_with GOL__CELL_STATE__OFF"

text \<open>How many of the 8 surrounding cells are On, each read via \<open>getCell\<close>.\<close>

definition on_neighbours :: "Grid \<Rightarrow> int \<Rightarrow> int \<Rightarrow> nat" where
  "on_neighbours g x y = length (filter (\<lambda>(dx, dy). is_on g (x + dx) (y + dy)) neighbour_offsets)"

text \<open>An Off cell becomes On iff exactly 3 neighbours are On; an On cell stays On iff its
  neighbour count is 2 or 3; otherwise the cell is Off.\<close>

definition b3s23 :: "bool \<Rightarrow> nat \<Rightarrow> CellState" where
  "b3s23 currently_on n =
     (if \<not> currently_on then (if n = 3 then GOL__CELL_STATE__ON else GOL__CELL_STATE__OFF)
      else (if n = 2 \<or> n = 3 then GOL__CELL_STATE__ON else GOL__CELL_STATE__OFF))"

definition next_state :: "Grid \<Rightarrow> int \<Rightarrow> int \<Rightarrow> CellState" where
  "next_state g x y = b3s23 (is_on g x y) (on_neighbours g x y)"

subsection \<open>Storage chars that hold 0 or 1\<close>

definition chars_0_or_1 :: "Grid \<Rightarrow> bool" where
  "chars_0_or_1 g \<longleftrightarrow> (\<forall>row \<in> set (origin g). \<forall>c \<in> set row. c = 0 \<or> c = 1)"

subsection \<open>Notions used in the proofs about \<open>iterateGame\<close>\<close>

text \<open>The grid of a game that \<open>currentGridPtr\<close> points at.\<close>

definition live_grid :: "Game \<Rightarrow> Grid" where
  "live_grid gm = grid_at gm (currentGridPtr gm)"

text \<open>The grid after a successful \<open>setCell g x y s\<close> for an in-bounds cell: Off clears the
  whole storage char, On sets its lowest bit.\<close>

definition written :: "Grid \<Rightarrow> int \<Rightarrow> int \<Rightarrow> CellState \<Rightarrow> Grid" where
  "written g x y s =
     (if s = GOL__CELL_STATE__OFF then with_storage_char g x y 0
      else with_storage_char g x y (storage_char g x y OR 1))"

text \<open>A grid every coordinate of which can be read: under the Torus rule the sizes, by
  which \<open>selsectCell\<close> divides, are positive.\<close>

definition readable :: "Grid \<Rightarrow> bool" where
  "readable g \<longleftrightarrow> grid_wf g \<and> valid_rule (outOfBoundsRule g) \<and>
     (outOfBoundsRule g = GOL__OOBR__TORUS \<longrightarrow> 0 < gridSizeX g \<and> 0 < gridSizeY g)"

definition indicator :: "CellState \<Rightarrow> nat" where
  "indicator c = (if c = GOL__CELL_STATE__ON then 1 else 0)"

text \<open>\<open>refreshed P src trg t\<close>: the grid \<open>t\<close> is the target grid \<open>trg\<close> in which the cells
  selected by \<open>P\<close> hold the next generation of \<open>src\<close>; everywhere else it reads as \<open>trg\<close>.\<close>

definition refreshed :: "(int \<Rightarrow> int \<Rightarrow> bool) \<Rightarrow> Grid \<Rightarrow> Grid \<Rightarrow> Grid \<Rightarrow> bool" where
  "refreshed P src trg t \<longleftrightarrow>
     grid_wf t \<and> same_shape trg t \<and>
     (\<forall>x y. in_grid trg x y \<longrightarrow>
        getCell t x y = (if P x y then done_with (next_state src x y) else getCell trg x y))"

text \<open>A grid whose On cells are exactly the cells of \<open>S\<close>.\<close>

definition shows_cells :: "Grid \<Rightarrow> (int \<times> int) set \<Rightarrow> bool" where
  "shows_cells g S \<longleftrightarrow>
     (\<forall>x \<in> {0..<gridSizeX g}. \<forall>y \<in> {0..<gridSizeY g}.
        getCell g x y = done_with (if (x, y) \<in> S then GOL__CELL_STATE__ON else GOL__CELL_STATE__OFF))"

text \<open>The rule B3/S23 on the unbounded plane whose On cells are the cells of \<open>S\<close>.\<close>

definition life_rule :: "(int \<times> int) set \<Rightarrow> int \<Rightarrow> int \<Rightarrow> CellState" where
  "life_rule S x y =
     b3s23 ((x, y) \<in> S) (length (filter (\<lambda>(dx, dy). (x + dx, y + dy) \<in> S) neighbour_offsets))"

text \<open>A 3 by 3 game under the rule AllOff: grid A holds the blinker
  \<open>{(1, 0), (1, 1), (1, 2)}\<close>, grid B is left over from an earlier generation.\<close>

definition blinker_game :: Game where
  "blinker_game =
     \<lparr>gridA = \<lparr>origin = [[0, 0, 0], [1, 1, 1], [0, 0, 0]], gridSizeX = 3, gridSizeY = 3,
                arraySizeX = 3, arraySizeY = 3, outOfBoundsRule = GOL__OOBR__ALL_OFF\<rparr>,
      gridB = \<lparr>origin = [[1, 1, 1], [1, 1, 1], [1, 1, 1]], gridSizeX = 3, gridSizeY = 3,
                arraySizeX = 3, arraySizeY = 3, outOfBoundsRule = GOL__OOBR__ALL_OFF\<rparr>,
      currentGridPtr = PtrGridA\<rparr>"

subsection \<open>The games that the public operations reach\<close>

text \<open>A game is reachable when \<open>createGame\<close> has returned it, or when it results from a
  reachable game by a call of \<open>setCell\<close> on one of its grids, of \<open>randomizeGame\<close> or of
  \<open>iterateGame\<close> that returns. The sizes passed to \<open>createGame\<close> are \<open>long long\<close> values.\<close>

inductive reachable :: "Game \<Rightarrow> bool" where
  created: "\<lbrakk>is_llong sizeX; is_llong sizeY;
             createGame mem_game mem_a mem_b sizeX sizeY rule = done_with (LiveGame gm)\<rbrakk>
            \<Longrightarrow> reachable gm"
| cell_set_A: "\<lbrakk>reachable gm; setCell (gridA gm) x y s = done_with (e, g')\<rbrakk>
            \<Longrightarrow> reachable (gm\<lparr>gridA := g'\<rparr>)"
| cell_set_B: "\<lbrakk>reachable gm; setCell (gridB gm) x y s = done_with (e, g')\<rbrakk>
            \<Longrightarrow> reachable (gm\<lparr>gridB := g'\<rparr>)"
| randomized: "\<lbrakk>reachable gm; randomizeGame rnd (k, gm) = done_with (k', gm')\<rbrakk>
            \<Longrightarrow> reachable gm'"
| iterated: "\<lbrakk>reachable gm; iterateGame gm = done_with gm'\<rbrakk> \<Longrightarrow> reachable gm'"

text \<open>A grid is reachable when \<open>createGrid\<close> has returned it, when it results from a
  reachable grid by a call of \<open>setCell\<close> or of \<open>randomizeGrid\<close> that returns, or when it
  is one of the two grids of a reachable game.\<close>

inductive reachable_grid :: "Grid \<Rightarrow> bool" where
  grid_created: "\<lbrakk>is_llong sizeX; is_llong sizeY;
             createGrid mem_ok sizeX sizeY rule = done_with (Some g)\<rbrakk>
            \<Longrightarrow> reachable_grid g"
| grid_cell_set: "\<lbrakk>reachable_grid g; setCell g x y s = done_with (e, g')\<rbrakk> \<Longrightarrow> reachable_grid g'"
| grid_randomized: "\<lbrakk>reachable_grid g; randomizeGrid rnd (k, g) = done_with (k', g')\<rbrakk>
            \<Longrightarrow> reachable_grid g'"
| grid_A_of_game: "reachable gm \<Longrightarrow> reachable_grid (gridA gm)"
| grid_B_of_game: "reachable gm \<Longrightarrow> reachable_grid (gridB gm)"

definition grid_inv :: "Grid \<Rightarrow> bool" where
  "grid_inv g \<longleftrightarrow> grid_wf g \<and> chars_0_or_1 g"

definition game_inv :: "Game \<Rightarrow> bool" where
  "game_inv gm \<longleftrightarrow> grid_inv (gridA gm) \<and> grid_inv (gridB gm)"

text \<open>The two kinds of \<open>CellIndex\<close> that \<open>selsectCell\<close> returns: \<open>NULL\<close> with the bit
  index \<open>sizeof( char )\<close>, or a storage char with the bit index 0.\<close>

definition cell_index_ok :: "CellIndex \<Rightarrow> bool" where
  "cell_index_ok idx \<longleftrightarrow>
     (storageCharPtr idx = None \<and> bitIndex idx = 1) \<or>
     (storageCharPtr idx \<noteq> None \<and> bitIndex idx = 0)"

text \<open>\<open>poked g g'\<close>: the grid \<open>g'\<close> is \<open>g\<close> after one storage char has been cleared or has
  had its lowest bit set.\<close>

definition poked :: "Grid \<Rightarrow> Grid \<Rightarrow> bool" where
  "poked g g' \<longleftrightarrow>
     (\<exists>i j v. i < length (origin g) \<and> j < length (origin g ! i) \<and>
        (v = 0 \<or> v = origin g ! i ! j OR 1) \<and>
        g' = g\<lparr>origin := (origin g)[i := (origin g ! i)[j := v]]\<rparr>)"

section \<open>Basic facts\<close>

text \<open>The equations of the loops are unfolded one iteration at a time.\<close>

declare randomizeGrid_j.simps [simp del] randomizeGrid_i.simps [simp del]
declare iterateGame_j.simps [simp del] iterateGame_i.simps [simp del]

lemma and_then_done [simp]: "and_then (done_with v) f = f v"
  by (simp add: and_then_def done_with_def)

lemma and_then_ub [simp]: "and_then (undefined_behaviour e) f = undefined_behaviour e"
  by (simp add: and_then_def undefined_behaviour_def)

lemma done_with_inject [simp]: "done_with a = done_with b \<longleftrightarrow> a = b"
  by (simp add: done_with_def)

lemma done_with_neq_ub [simp]: "done_with a \<noteq> undefined_behaviour e" "undefined_behaviour e \<noteq> done_with a"
  by (simp_all add: done_with_def undefined_behaviour_def)

lemma lldiv_by_one: "lldiv y sizeof_char = done_with \<lparr>quot = y, rem = 0\<rparr>"
  by (simp add: lldiv_def sizeof_char_def signed_divide_int_def signed_modulo_int_def mult_sgn_abs)

lemma smod_neg: "0 < w \<Longrightarrow> 0 < a \<Longrightarrow> (- a) smod w = - (a mod (w::int))"
  by (simp add: signed_modulo_int_def)

lemma smod_fix: "0 < w \<Longrightarrow> (if x smod w \<ge> 0 then x smod w else x smod w + w) = x mod (w::int)"
proof -
  assume w: "0 < w"
  show ?thesis
  proof (cases "0 \<le> x")
    case True
    then show ?thesis using w by (simp add: signed_modulo_int_def sgn_if)
  next
    case False
    define a where "a = - x"
    have a: "0 < a" "x = - a" using False by (simp_all add: a_def)
    have b: "0 \<le> a mod w" "a mod w < w" using w by simp_all
    have m: "(- a) mod w = (if a mod w = 0 then 0 else w - a mod w)"
      by (simp only: zmod_zminus1_eq_if)
    show ?thesis
      unfolding a(2) smod_neg [OF w a(1)] m using b by auto
  qed
qed

lemma selsectCell_inside:
  assumes "grid_wf g" "0 \<le> x" "x < gridSizeX g" "0 \<le> y" "y < gridSizeY g"
  shows "selsectCell g x y = done_with \<lparr>storageCharPtr = Some (nat x, nat y), bitIndex = 0\<rparr>"
  using assms
  by (subst selsectCell.simps) (simp add: lldiv_by_one done_with_def grid_wf_def)

lemma selsectCell_outside:
  assumes "\<not> (0 \<le> x \<and> x < gridSizeX g \<and> 0 \<le> y \<and> y < gridSizeY g)"
    and "outOfBoundsRule g \<noteq> GOL__OOBR__TORUS"
  shows "selsectCell g x y = done_with \<lparr>storageCharPtr = None, bitIndex = 1\<rparr>"
  using assms
  by (subst selsectCell.simps) (auto simp add: done_with_def sizeof_char_def)

lemma sdiv_neg: "0 < w \<Longrightarrow> 0 < a \<Longrightarrow> (- a) sdiv w = - (a div (w::int))"
  by (simp add: signed_divide_int_def)

lemma lldivPositive_torus:
  assumes w: "0 < w" "w \<le> LLONG_MAX" and x: "is_llong x"
  shows "\<exists>q. lldivPositive x w = done_with \<lparr>quot = q, rem = x mod w\<rparr>"
proof (cases "0 \<le> x smod w")
  case True
  with smod_fix [OF w(1), of x] have "x smod w = x mod w" by simp
  with True w show ?thesis
    by (simp add: lldivPositive_def lldiv_def)
next
  case False
  with smod_fix [OF w(1), of x] have r: "x smod w + w = x mod w" by simp
  have neg: "x < 0"
  proof (rule ccontr)
    assume "\<not> x < 0"
    then have "0 \<le> x smod w" using w by (simp add: signed_modulo_int_def sgn_if)
    with False show False by simp
  qed
  define a where "a = - x"
  have a: "0 < a" "x = - a" "a \<le> 2 ^ 63"
    using neg x by (simp_all add: a_def is_llong_def LLONG_MIN_def)
  have "a mod w \<noteq> 0" using False unfolding a(2) smod_neg [OF w(1) a(1)] by simp
  then have "w \<noteq> 1" by auto
  with w have "2 \<le> w" by simp
  have "a div w \<le> a div 2"
    by (rule zdiv_mono2) (use a \<open>2 \<le> w\<close> in simp_all)
  also have "\<dots> \<le> 2 ^ 62" using a(3) by simp
  finally have q: "a div w \<le> 2 ^ 62" .
  have "0 \<le> a div w" using a w by (simp add: pos_imp_zdiv_nonneg_iff)
  with q have q': "ll_result (x sdiv w - 1) = done_with (x sdiv w - 1)"
    unfolding a(2) sdiv_neg [OF w(1) a(1)]
    by (simp add: ll_result_def LLONG_MIN_def LLONG_MAX_def)
  have "0 \<le> x mod w" "x mod w < w" using w by simp_all
  with w have r': "ll_result (x smod w + w) = done_with (x mod w)"
    unfolding r by (simp add: ll_result_def LLONG_MIN_def LLONG_MAX_def)
  show ?thesis using False w q' r'
    by (simp add: lldivPositive_def lldiv_def)
qed

lemma selsectCell_torus:
  assumes wf: "grid_wf g" and t: "outOfBoundsRule g = GOL__OOBR__TORUS"
    and pos: "0 < gridSizeX g" "0 < gridSizeY g"
    and x: "is_llong x" and y: "is_llong y"
  shows "selsectCell g x y =
           done_with \<lparr>storageCharPtr = Some (nat (x mod gridSizeX g), nat (y mod gridSizeY g)),
                       bitIndex = 0\<rparr>"
proof -
  let ?x = "x mod gridSizeX g" and ?y = "y mod gridSizeY g"
  have in_x: "0 \<le> ?x" "?x < gridSizeX g" and in_y: "0 \<le> ?y" "?y < gridSizeY g"
    using pos by simp_all
  have inner: "selsectCell g ?x ?y =
      done_with \<lparr>storageCharPtr = Some (nat ?x, nat ?y), bitIndex = 0\<rparr>"
    by (rule selsectCell_inside [OF wf in_x in_y])
  show ?thesis
  proof (cases "0 \<le> x \<and> x < gridSizeX g \<and> 0 \<le> y \<and> y < gridSizeY g")
    case True
    then have "?x = x" "?y = y" by simp_all
    with inner show ?thesis by simp
  next
    case False
    from wf have le: "gridSizeX g \<le> LLONG_MAX" "gridSizeY g \<le> LLONG_MAX"
      by (simp_all add: grid_wf_def)
    obtain qx where dx: "lldivPositive x (gridSizeX g) = done_with \<lparr>quot = qx, rem = ?x\<rparr>"
      using lldivPositive_torus [OF pos(1) le(1) x] by blast
    obtain qy where dy: "lldivPositive y (gridSizeY g) = done_with \<lparr>quot = qy, rem = ?y\<rparr>"
      using lldivPositive_torus [OF pos(2) le(2) y] by blast
    have "selsectCell g x y = selsectCell g ?x ?y"
      using False t by (subst selsectCell.simps) (auto simp: dx dy done_with_def)
    with inner show ?thesis by simp
  qed
qed

lemma in_grid_index:
  assumes "grid_wf g" "in_grid g x y"
  shows "nat x < length (origin g)" "nat y < length (origin g ! nat x)"
proof -
  show x: "nat x < length (origin g)"
    using assms by (simp add: grid_wf_def in_grid_def)
  then have "origin g ! nat x \<in> set (origin g)" by simp
  then show "nat y < length (origin g ! nat x)"
    using assms by (simp add: grid_wf_def in_grid_def)
qed

lemma load_inside:
  "grid_wf g \<Longrightarrow> in_grid g x y \<Longrightarrow> load g (Some (nat x, nat y)) = done_with (storage_char g x y)"
  by (simp add: load_def in_grid_index storage_char_def)

lemma store_inside:
  "grid_wf g \<Longrightarrow> in_grid g x y \<Longrightarrow>
     store g (Some (nat x, nat y)) v = done_with (with_storage_char g x y v)"
  by (simp add: store_def in_grid_index with_storage_char_def)

lemma bit_mask_0 [simp]: "bit_mask 0 = 1"
  by (simp add: bit_mask_def)

lemma getCell_inside:
  assumes "grid_wf g" "in_grid g x y"
  shows "getCell g x y =
    done_with (if storage_char g x y = 0 then GOL__CELL_STATE__OFF else GOL__CELL_STATE__ON)"
proof -
  have "selsectCell g x y = done_with \<lparr>storageCharPtr = Some (nat x, nat y), bitIndex = 0\<rparr>"
    using assms by (intro selsectCell_inside) (simp_all add: in_grid_def)
  then show ?thesis
    using assms by (simp add: getCell_def load_inside logical_and_def)
qed

lemma getCell_outside:
  assumes "\<not> in_grid g x y" "outOfBoundsRule g \<noteq> GOL__OOBR__TORUS"
  shows "getCell g x y =
    done_with (if outOfBoundsRule g = GOL__OOBR__ALL_OFF then GOL__CELL_STATE__OFF
               else if outOfBoundsRule g = GOL__OOBR__ALL_ON then GOL__CELL_STATE__ON
               else GOL__CELL_STATE__INVALID)"
proof -
  have "selsectCell g x y = done_with \<lparr>storageCharPtr = None, bitIndex = 1\<rparr>"
    using assms by (intro selsectCell_outside) (simp_all add: in_grid_def)
  then show ?thesis
    by (simp add: getCell_def sizeof_char_def GOL__OOBR__ALL_ON_def GOL__CELL_STATE__ON_def)
qed

lemma in_grid_mod:
  "0 < gridSizeX g \<Longrightarrow> 0 < gridSizeY g \<Longrightarrow> in_grid g (x mod gridSizeX g) (y mod gridSizeY g)"
  by (simp add: in_grid_def)

lemma getCell_torus:
  assumes "grid_wf g" "outOfBoundsRule g = GOL__OOBR__TORUS"
    and "0 < gridSizeX g" "0 < gridSizeY g" "is_llong x" "is_llong y"
  shows "getCell g x y =
    done_with (if storage_char g (x mod gridSizeX g) (y mod gridSizeY g) = 0
               then GOL__CELL_STATE__OFF else GOL__CELL_STATE__ON)"
  using assms
  by (simp add: getCell_def selsectCell_torus load_inside in_grid_mod logical_and_def)

lemma setCell_inside:
  assumes "grid_wf g" "in_grid g x y"
  shows "setCell g x y s =
    (if s = GOL__CELL_STATE__OFF then done_with (0, with_storage_char g x y 0)
     else if s = GOL__CELL_STATE__ON then done_with (0, with_storage_char g x y (storage_char g x y OR 1))
     else done_with (2, g))"
proof -
  have "selsectCell g x y = done_with \<lparr>storageCharPtr = Some (nat x, nat y), bitIndex = 0\<rparr>"
    using assms by (intro selsectCell_inside) (simp_all add: in_grid_def)
  then show ?thesis
    using assms
    by (simp add: setCell_def load_inside store_inside logical_not_def sizeof_char_def)
qed

lemma setCell_outside:
  assumes "\<not> in_grid g x y" "outOfBoundsRule g \<noteq> GOL__OOBR__TORUS"
  shows "setCell g x y s = done_with (1, g)"
proof -
  have "selsectCell g x y = done_with \<lparr>storageCharPtr = None, bitIndex = 1\<rparr>"
    using assms by (intro selsectCell_outside) (simp_all add: in_grid_def)
  then show ?thesis
    by (simp add: setCell_def sizeof_char_def)
qed

lemma setCell_torus:
  assumes "grid_wf g" "outOfBoundsRule g = GOL__OOBR__TORUS"
    and "0 < gridSizeX g" "0 < gridSizeY g" "is_llong x" "is_llong y"
  shows "setCell g x y s = setCell g (x mod gridSizeX g) (y mod gridSizeY g) s"
  using assms
  by (simp add: setCell_def selsectCell_torus selsectCell_inside in_grid_mod)

lemma grid_wf_with_storage_char:
  assumes "grid_wf g"
  shows "grid_wf (with_storage_char g x y v)"
proof -
  let ?xs = "origin g" and ?r = "(origin g ! nat x)[nat y := v]"
  have rows: "\<forall>row \<in> set ?xs. length row = arraySizeY g"
    using assms by (simp add: grid_wf_def)
  have "length row = arraySizeY g" if "row \<in> set (?xs[nat x := ?r])" for row
  proof (cases "nat x < length ?xs")
    case True
    then have "?xs ! nat x \<in> set ?xs" by simp
    with rows have "length ?r = arraySizeY g" by simp
    moreover from that have "row = ?r \<or> row \<in> set ?xs"
      using set_update_subset_insert [of ?xs "nat x" ?r] by auto
    ultimately show ?thesis using rows by auto
  next
    case False
    then have "?xs[nat x := ?r] = ?xs" by (simp add: list_update_beyond)
    with that rows show ?thesis by simp
  qed
  then show ?thesis
    using assms by (simp add: grid_wf_def with_storage_char_def)
qed

lemma with_storage_char_fields [simp]:
  "gridSizeX (with_storage_char g x y v) = gridSizeX g"
  "gridSizeY (with_storage_char g x y v) = gridSizeY g"
  "arraySizeX (with_storage_char g x y v) = arraySizeX g"
  "arraySizeY (with_storage_char g x y v) = arraySizeY g"
  "outOfBoundsRule (with_storage_char g x y v) = outOfBoundsRule g"
  by (simp_all add: with_storage_char_def)

lemma in_grid_with_storage_char [simp]:
  "in_grid (with_storage_char g x y v) x' y' = in_grid g x' y'"
  by (simp add: in_grid_def)

lemma storage_char_with_storage_char:
  assumes "grid_wf g" "in_grid g x y" "in_grid g x' y'"
  shows "storage_char (with_storage_char g x y v) x' y' =
           (if x' = x \<and> y' = y then v else storage_char g x' y')"
proof -
  have i: "nat x < length (origin g)" "nat y < length (origin g ! nat x)"
    "nat x' < length (origin g)" "nat y' < length (origin g ! nat x')"
    using assms by (simp_all add: in_grid_index)
  have e: "nat x' = nat x \<longleftrightarrow> x' = x" "nat y' = nat y \<longleftrightarrow> y' = y"
    using assms(2,3) by (auto simp: in_grid_def)
  show ?thesis
    using i e by (auto simp: storage_char_def with_storage_char_def nth_list_update)
qed

lemma createGrid_ok:
  "0 \<le> sizeX \<Longrightarrow> 0 \<le> sizeY \<Longrightarrow>
     createGrid True sizeX sizeY rule = done_with (Some (blank_grid sizeX sizeY rule))"
  by (simp add: createGrid_def lldivGreater_def lldiv_by_one blank_grid_def Let_def)

lemma grid_wf_blank:
  "0 \<le> sizeX \<Longrightarrow> sizeX \<le> LLONG_MAX \<Longrightarrow> 0 \<le> sizeY \<Longrightarrow> sizeY \<le> LLONG_MAX \<Longrightarrow>
     grid_wf (blank_grid sizeX sizeY rule)"
  by (simp add: grid_wf_def blank_grid_def)

lemma blank_grid_fields [simp]:
  "gridSizeX (blank_grid sizeX sizeY rule) = sizeX"
  "gridSizeY (blank_grid sizeX sizeY rule) = sizeY"
  "outOfBoundsRule (blank_grid sizeX sizeY rule) = rule"
  by (simp_all add: blank_grid_def)

lemma storage_char_blank:
  "in_grid (blank_grid sizeX sizeY rule) x y \<Longrightarrow> storage_char (blank_grid sizeX sizeY rule) x y = 0"
  by (simp add: in_grid_def storage_char_def blank_grid_def)

lemma or_1_nonzero: "(c::c_char) OR 1 \<noteq> 0"
  by (simp add: or_eq_0_iff)

lemma is_llong_small [simp]: "is_llong 0" "is_llong 1" "is_llong (- 1)" "is_llong 2"
  by (simp_all add: is_llong_def LLONG_MIN_def LLONG_MAX_def)

lemma in_grid_is_llong: "grid_wf g \<Longrightarrow> in_grid g x y \<Longrightarrow> is_llong x \<and> is_llong y"
  by (simp add: grid_wf_def in_grid_def is_llong_def LLONG_MIN_def)

lemma rule_consts_distinct [simp]:
  "GOL__OOBR__ALL_OFF \<noteq> GOL__OOBR__TORUS" "GOL__OOBR__ALL_ON \<noteq> GOL__OOBR__TORUS"
  "GOL__OOBR__ALL_OFF \<noteq> GOL__OOBR__ALL_ON"
  "GOL__OOBR__TORUS \<noteq> GOL__OOBR__ALL_OFF" "GOL__OOBR__TORUS \<noteq> GOL__OOBR__ALL_ON"
  "GOL__OOBR__ALL_ON \<noteq> GOL__OOBR__ALL_OFF"
  by (simp_all add: GOL__OOBR__ALL_OFF_def GOL__OOBR__ALL_ON_def GOL__OOBR__TORUS_def)

lemma state_consts_distinct [simp]:
  "GOL__CELL_STATE__ON \<noteq> GOL__CELL_STATE__OFF" "GOL__CELL_STATE__OFF \<noteq> GOL__CELL_STATE__ON"
  "GOL__CELL_STATE__INVALID \<noteq> GOL__CELL_STATE__OFF" "GOL__CELL_STATE__INVALID \<noteq> GOL__CELL_STATE__ON"
  by (simp_all add: GOL__CELL_STATE__ON_def GOL__CELL_STATE__OFF_def GOL__CELL_STATE__INVALID_def)

text \<open>A 2 by 2 torus whose only On cell is (1, 0).\<close>

lemma torus_example:
  "with_storage_char (blank_grid 2 2 GOL__OOBR__TORUS) 1 0 1 =
     \<lparr>origin = [[0, 0], [1, 0]], gridSizeX = 2, gridSizeY = 2, arraySizeX = 2, arraySizeY = 2,
      outOfBoundsRule = GOL__OOBR__TORUS\<rparr>"
  by (simp add: with_storage_char_def blank_grid_def numeral_2_eq_2)

lemma and_then_eq_done:
  "and_then m f = done_with v \<longleftrightarrow> (\<exists>u. m = done_with u \<and> f u = done_with v)"
  by (auto simp: and_then_def done_with_def split: option.splits sum.splits)

lemma createGrid_Some:
  assumes "createGrid mem_ok sizeX sizeY rule = done_with (Some g)"
  shows "g = blank_grid sizeX sizeY rule \<and> 0 \<le> sizeX \<and> 0 \<le> sizeY"
  using assms
  by (auto simp: createGrid_def lldivGreater_def lldiv_by_one blank_grid_def Let_def
      split: if_splits)

text \<open>Every game that \<open>createGame\<close> returns, for sizes of type \<open>long long\<close> and one of
  the three rules, is well-formed.\<close>

lemma createGame_game_wf:
  assumes "createGame mem_game mem_a mem_b sizeX sizeY rule = done_with (LiveGame gm)"
    and "is_llong sizeX" "is_llong sizeY" "valid_rule rule"
  shows "game_wf gm"
proof -
  from assms(1) obtain a b where
    a: "createGrid mem_a sizeX sizeY rule = done_with (Some a)" and
    b: "createGrid mem_b sizeX sizeY rule = done_with (Some b)" and
    gm: "gm = \<lparr>gridA = a, gridB = b, currentGridPtr = PtrGridA\<rparr>"
    by (auto simp: createGame_def and_then_eq_done split: if_splits option.splits)
  from createGrid_Some [OF a] createGrid_Some [OF b] assms(2-4) gm show ?thesis
    by (simp add: game_wf_def same_shape_def grid_wf_blank is_llong_def)
qed

section \<open>Read after write\<close>

text \<open>
  Claim C4. For every grid \<open>g\<close> and every in-bounds coordinate \<open>(x, y)\<close>: immediately after
  \<open>setCell g x y On\<close>, \<open>getCell g x y\<close> returns On, and immediately after
  \<open>setCell g x y Off\<close>, \<open>getCell g x y\<close> returns Off. Both calls of \<open>setCell\<close> return
  the error code 0.
\<close>

theorem read_after_write:
  assumes "grid_wf g" and "in_grid g x y"
  shows "(\<exists>g'. setCell g x y GOL__CELL_STATE__ON = done_with (0, g') \<and>
               getCell g' x y = done_with GOL__CELL_STATE__ON) \<and>
         (\<exists>g'. setCell g x y GOL__CELL_STATE__OFF = done_with (0, g') \<and>
               getCell g' x y = done_with GOL__CELL_STATE__OFF)"
proof -
  have neq: "GOL__CELL_STATE__ON \<noteq> GOL__CELL_STATE__OFF"
    by (simp add: GOL__CELL_STATE__ON_def GOL__CELL_STATE__OFF_def)
  have "getCell (with_storage_char g x y v) x y =
          done_with (if v = 0 then GOL__CELL_STATE__OFF else GOL__CELL_STATE__ON)" for v
    using assms
    by (simp add: getCell_inside grid_wf_with_storage_char storage_char_with_storage_char)
  then show ?thesis
    using assms neq by (simp add: setCell_inside or_1_nonzero)
qed

theorem read_after_write_witness:
  "(\<exists>g'. setCell (blank_grid 2 3 GOL__OOBR__ALL_OFF) 1 2 GOL__CELL_STATE__ON = done_with (0, g') \<and>
         getCell g' 1 2 = done_with GOL__CELL_STATE__ON) \<and>
   (\<exists>g'. setCell (blank_grid 2 3 GOL__OOBR__ALL_OFF) 1 2 GOL__CELL_STATE__OFF = done_with (0, g') \<and>
         getCell g' 1 2 = done_with GOL__CELL_STATE__OFF)"
  by (rule read_after_write) (simp_all add: grid_wf_blank in_grid_def LLONG_MAX_def)

section \<open>Writing one cell leaves the others alone\<close>

text \<open>
  Claim C10. For every grid \<open>g\<close>, every in-bounds coordinate \<open>(x, y)\<close> and every other
  in-bounds coordinate \<open>(x', y')\<close>, \<open>setCell g x y s\<close> returns and leaves both
  \<open>getCell g x' y'\<close> and the storage char of \<open>(x', y')\<close> unchanged, whatever the state
  \<open>s\<close> is. Setting a cell Off zeroes the whole storage char of that cell: each storage
  char holds exactly one cell.
\<close>

theorem setCell_frame:
  assumes "grid_wf g" and "in_grid g x y" and "in_grid g x' y'" and "(x', y') \<noteq> (x, y)"
  shows "\<exists>e g'. setCell g x y s = done_with (e, g') \<and>
           getCell g' x' y' = getCell g x' y' \<and>
           storage_char g' x' y' = storage_char g x' y' \<and>
           (s = GOL__CELL_STATE__OFF \<longrightarrow> storage_char g' x y = 0)"
proof -
  have other: "storage_char (with_storage_char g x y v) x' y' = storage_char g x' y'" for v
    using assms by (auto simp: storage_char_with_storage_char)
  have self: "storage_char (with_storage_char g x y v) x y = v" for v
    using assms by (simp add: storage_char_with_storage_char)
  have "getCell (with_storage_char g x y v) x' y' = getCell g x' y'" for v
    using assms other by (simp add: getCell_inside grid_wf_with_storage_char)
  then show ?thesis
    using assms(1,2) other self by (simp add: setCell_inside)
qed

theorem setCell_frame_witness:
  "\<exists>e g'. setCell (blank_grid 2 3 GOL__OOBR__ALL_OFF) 1 2 GOL__CELL_STATE__OFF = done_with (e, g') \<and>
      getCell g' 1 1 = getCell (blank_grid 2 3 GOL__OOBR__ALL_OFF) 1 1 \<and>
      storage_char g' 1 1 = storage_char (blank_grid 2 3 GOL__OOBR__ALL_OFF) 1 1 \<and>
      (GOL__CELL_STATE__OFF = GOL__CELL_STATE__OFF \<longrightarrow> storage_char g' 1 2 = 0)"
  by (rule setCell_frame) (simp_all add: grid_wf_blank in_grid_def LLONG_MAX_def)

section \<open>Toroidal wraparound\<close>

text \<open>
  Claim C3. For every grid with the Torus rule, of width \<open>W > 0\<close> and height \<open>H > 0\<close>, and
  every coordinate \<open>(x, y)\<close> of type \<open>long long\<close>, \<open>getCell\<close> returns the state (On or Off)
  of the in-bounds cell \<open>(x mod W, y mod H)\<close>, where \<open>mod\<close> is the modulo with a
  non-negative remainder. In particular the reads at \<open>(-1, 0)\<close> and \<open>(W - 1, 0)\<close> agree,
  the reads at \<open>(W, 0)\<close> and \<open>(0, 0)\<close> agree, and so do the reads at \<open>(2 * W, 0)\<close> and
  \<open>(0, 0)\<close>, and at \<open>(x + k * W, y)\<close> and \<open>(x, y)\<close> for every number \<open>k\<close> of wraps, as
  long as the coordinate is a \<open>long long\<close>.
\<close>

theorem torus_wraparound:
  assumes "grid_wf g" and "outOfBoundsRule g = GOL__OOBR__TORUS"
    and "0 < gridSizeX g" and "0 < gridSizeY g" and "is_llong x" and "is_llong y"
  shows "in_grid g (x mod gridSizeX g) (y mod gridSizeY g) \<and>
         getCell g x y = getCell g (x mod gridSizeX g) (y mod gridSizeY g) \<and>
         (is_on g x y \<or> is_off g x y) \<and>
         getCell g (- 1) 0 = getCell g (gridSizeX g - 1) 0 \<and>
         getCell g (gridSizeX g) 0 = getCell g 0 0 \<and>
         (is_llong (2 * gridSizeX g) \<longrightarrow> getCell g (2 * gridSizeX g) 0 = getCell g 0 0) \<and>
         (\<forall>k. is_llong (x + k * gridSizeX g) \<longrightarrow> getCell g (x + k * gridSizeX g) y = getCell g x y)"
proof -
  let ?W = "gridSizeX g" and ?H = "gridSizeY g"
  note rd = getCell_torus [OF assms(1-4)]
  have W: "is_llong ?W" "is_llong (?W - 1)"
    using assms(1,3) by (simp_all add: grid_wf_def is_llong_def LLONG_MIN_def)
  have m1: "(- 1) mod ?W = ?W - 1"
    using assms(3) by (rule zmod_minus1)
  have m2: "(?W - 1) mod ?W = ?W - 1"
    using assms(3) by (intro mod_pos_pos_trivial) simp_all
  have "getCell g (x mod ?W) (y mod ?H) = getCell g x y"
    using assms by (simp add: getCell_inside in_grid_mod rd)
  moreover have "is_on g x y \<or> is_off g x y"
    using assms by (simp add: is_on_def is_off_def rd)
  moreover have "getCell g (- 1) 0 = getCell g (?W - 1) 0"
    using W by (simp add: rd m1 m2)
  moreover have "getCell g ?W 0 = getCell g 0 0"
    using W by (simp add: rd)
  moreover have "getCell g (2 * ?W) 0 = getCell g 0 0" if "is_llong (2 * ?W)"
    using that by (simp add: rd)
  moreover have "getCell g (x + k * ?W) y = getCell g x y" if "is_llong (x + k * ?W)" for k
    using that assms(5,6) by (simp add: rd)
  ultimately show ?thesis
    using assms(3,4) by (simp add: in_grid_mod)
qed

theorem torus_wraparound_witness:
  "getCell (with_storage_char (blank_grid 2 2 GOL__OOBR__TORUS) 1 0 1) (- 1) 0 =
     getCell (with_storage_char (blank_grid 2 2 GOL__OOBR__TORUS) 1 0 1) (2 - 1) 0 \<and>
   is_on (with_storage_char (blank_grid 2 2 GOL__OOBR__TORUS) 1 0 1) 1 0 \<and>
   is_llong (2 * 2) \<and>
   getCell (with_storage_char (blank_grid 2 2 GOL__OOBR__TORUS) 1 0 1) (2 * 2) 0 =
     getCell (with_storage_char (blank_grid 2 2 GOL__OOBR__TORUS) 1 0 1) 0 0"
proof -
  let ?g = "with_storage_char (blank_grid 2 2 GOL__OOBR__TORUS) 1 0 1"
  have wf: "grid_wf ?g"
    by (simp add: grid_wf_with_storage_char grid_wf_blank LLONG_MAX_def)
  have on: "is_on ?g 1 0"
    by (simp add: is_on_def getCell_inside wf in_grid_def)
       (simp add: torus_example storage_char_def)
  have l: "is_llong (2 * 2)"
    by (simp add: is_llong_def LLONG_MIN_def LLONG_MAX_def)
  show ?thesis
    using torus_wraparound [of ?g "- 1" 0] wf on l by simp
qed

section \<open>Writing out of bounds\<close>

text \<open>
  Claim C5 says that \<open>setCell\<close> at an out-of-bounds coordinate fails and writes no cell
  under every rule, the Torus rule included. Under the Torus rule it does not: on a blank
  2 by 2 torus, \<open>setCell\<close> at \<open>(-1, 0)\<close> returns the error code 0 and sets the cell
  \<open>(1, 0)\<close>.
\<close>

theorem setCell_torus_counterexample:
  "\<not> in_grid (blank_grid 2 2 GOL__OOBR__TORUS) (- 1) 0 \<and>
   setCell (blank_grid 2 2 GOL__OOBR__TORUS) (- 1) 0 GOL__CELL_STATE__ON =
     done_with (0, \<lparr>origin = [[0, 0], [1, 0]], gridSizeX = 2, gridSizeY = 2,
                     arraySizeX = 2, arraySizeY = 2, outOfBoundsRule = GOL__OOBR__TORUS\<rparr>) \<and>
   blank_grid 2 2 GOL__OOBR__TORUS =
     \<lparr>origin = [[0, 0], [0, 0]], gridSizeX = 2, gridSizeY = 2,
      arraySizeX = 2, arraySizeY = 2, outOfBoundsRule = GOL__OOBR__TORUS\<rparr>"
proof -
  let ?g = "blank_grid 2 2 GOL__OOBR__TORUS"
  have wf: "grid_wf ?g"
    by (simp add: grid_wf_blank LLONG_MAX_def)
  have "setCell ?g (- 1) 0 GOL__CELL_STATE__ON = setCell ?g 1 0 GOL__CELL_STATE__ON"
    using setCell_torus [OF wf, of "- 1" 0] by simp
  also have "\<dots> = done_with (0, with_storage_char ?g 1 0 1)"
    using wf by (simp add: setCell_inside in_grid_def storage_char_blank)
  finally show ?thesis
    by (simp add: torus_example in_grid_def) (simp add: blank_grid_def numeral_2_eq_2)
qed

text \<open>
  Claim C5, amended. For every grid whose rule is not the Torus rule and every out-of-bounds
  coordinate \<open>(x, y)\<close>, \<open>setCell g x y s\<close> returns the error code 1 and leaves the grid as
  it is, for every state \<open>s\<close>. Under the Torus rule, on a grid of positive width \<open>W\<close> and
  height \<open>H\<close>, \<open>setCell g x y s\<close> is the write to the in-bounds cell \<open>(x mod W, y mod H)\<close>:
  \<open>selsectCell\<close> wraps the coordinate for \<open>setCell\<close> as it does for \<open>getCell\<close>.
\<close>

theorem setCell_out_of_bounds:
  "(outOfBoundsRule g \<noteq> GOL__OOBR__TORUS \<longrightarrow> \<not> in_grid g x y \<longrightarrow>
      setCell g x y s = done_with (1, g)) \<and>
   (grid_wf g \<longrightarrow> outOfBoundsRule g = GOL__OOBR__TORUS \<longrightarrow>
      0 < gridSizeX g \<longrightarrow> 0 < gridSizeY g \<longrightarrow> is_llong x \<longrightarrow> is_llong y \<longrightarrow>
      in_grid g (x mod gridSizeX g) (y mod gridSizeY g) \<and>
      setCell g x y s = setCell g (x mod gridSizeX g) (y mod gridSizeY g) s)"
  using setCell_outside [of g x y s] setCell_torus [of g x y s]
  by (simp add: in_grid_mod)

theorem setCell_out_of_bounds_witness:
  "\<not> in_grid (blank_grid 2 2 GOL__OOBR__ALL_ON) 2 0 \<and>
   setCell (blank_grid 2 2 GOL__OOBR__ALL_ON) 2 0 GOL__CELL_STATE__ON =
     done_with (1, blank_grid 2 2 GOL__OOBR__ALL_ON) \<and>
   in_grid (blank_grid 2 2 GOL__OOBR__TORUS) (2 mod 2) (0 mod 2) \<and>
   setCell (blank_grid 2 2 GOL__OOBR__TORUS) 2 0 GOL__CELL_STATE__ON =
     setCell (blank_grid 2 2 GOL__OOBR__TORUS) (2 mod 2) (0 mod 2) GOL__CELL_STATE__ON"
proof -
  have wf: "grid_wf (blank_grid 2 2 GOL__OOBR__TORUS)"
    by (simp add: grid_wf_blank LLONG_MAX_def)
  have out: "\<not> in_grid (blank_grid 2 2 GOL__OOBR__ALL_ON) 2 0"
    by (simp add: in_grid_def)
  show ?thesis
    using setCell_out_of_bounds [of "blank_grid 2 2 GOL__OOBR__ALL_ON" 2 0 GOL__CELL_STATE__ON]
      setCell_out_of_bounds [of "blank_grid 2 2 GOL__OOBR__TORUS" 2 0 GOL__CELL_STATE__ON]
      wf out
    by simp
qed

section \<open>The layout of the storage\<close>

text \<open>
  Claim C2 places the cell \<open>(x, y)\<close> in the storage unit \<open>y div bitsPerWord\<close> at the bit
  \<open>y mod bitsPerWord\<close>, with \<open>bitsPerWord\<close> the number of bits of a storage unit, and sizes
  a row at \<open>ceil (height / bitsPerWord)\<close> units. The code divides by \<open>sizeof( char )\<close>, which
  is 1, and not by \<open>CHAR_BIT\<close>: on a grid of height 16 a row has 16 chars and not 2, and the
  cell \<open>(0, 8)\<close> is bit 0 of the char 8 of its row, not bit 0 of the char 1.
\<close>

theorem selsectCell_one_cell_per_char:
  "createGrid True 1 16 GOL__OOBR__ALL_OFF = done_with (Some (blank_grid 1 16 GOL__OOBR__ALL_OFF)) \<and>
   arraySizeY (blank_grid 1 16 GOL__OOBR__ALL_OFF) = 16 \<and>
   selsectCell (blank_grid 1 16 GOL__OOBR__ALL_OFF) 0 8 =
     done_with \<lparr>storageCharPtr = Some (0, 8), bitIndex = 0\<rparr> \<and>
   8 div CHAR_BIT = 1 \<and> 8 mod CHAR_BIT = 0 \<and> (16 + CHAR_BIT - 1) div CHAR_BIT = 2"
proof -
  have "selsectCell (blank_grid 1 16 GOL__OOBR__ALL_OFF) 0 8 =
          done_with \<lparr>storageCharPtr = Some (0, 8), bitIndex = 0\<rparr>"
    by (subst selsectCell.simps) (simp add: lldiv_by_one done_with_def blank_grid_def)
  then show ?thesis
    by (simp add: createGrid_ok CHAR_BIT_def) (simp add: blank_grid_def)
qed

section \<open>Reads that do not return a state\<close>

text \<open>
  Claim C6 says that \<open>getCell\<close> returns On or Off on every grid that \<open>createGrid\<close> has
  returned, whatever the sizes and the rule. \<open>createGrid\<close> accepts the width 0 and the
  height 0; on such a grid under the Torus rule every coordinate is out of bounds, and
  \<open>selsectCell\<close> calls \<open>lldiv\<close> with the divisor 0.
\<close>

theorem getCell_empty_torus_divides_by_zero:
  "createGrid True 0 0 GOL__OOBR__TORUS = done_with (Some (blank_grid 0 0 GOL__OOBR__TORUS)) \<and>
   getCell (blank_grid 0 0 GOL__OOBR__TORUS) 0 0 = undefined_behaviour DivisionByZero"
proof -
  have "getCell (blank_grid 0 0 GOL__OOBR__TORUS) 0 0 = undefined_behaviour DivisionByZero"
    unfolding getCell_def
    by (subst selsectCell.simps)
       (simp add: lldivPositive_def lldiv_def undefined_behaviour_def and_then_def)
  then show ?thesis
    by (simp add: createGrid_ok)
qed

section \<open>One cell of \<open>iterateGame\<close>\<close>

lemma getCell_defined:
  assumes "readable g" "is_llong x" "is_llong y"
  shows "\<exists>c. getCell g x y = done_with c \<and> (c = GOL__CELL_STATE__OFF \<or> c = GOL__CELL_STATE__ON)"
proof (cases "outOfBoundsRule g = GOL__OOBR__TORUS")
  case True
  with assms show ?thesis by (simp add: readable_def getCell_torus)
next
  case False
  show ?thesis
  proof (cases "in_grid g x y")
    case True
    with assms show ?thesis by (simp add: readable_def getCell_inside)
  next
    case out: False
    with False assms show ?thesis
      by (auto simp: readable_def getCell_outside valid_rule_def)
  qed
qed

lemma state_as_indicator:
  "c = GOL__CELL_STATE__OFF \<or> c = GOL__CELL_STATE__ON \<Longrightarrow> c = of_nat (indicator c)"
  by (auto simp: indicator_def GOL__CELL_STATE__OFF_def GOL__CELL_STATE__ON_def)

lemma small_count_tests:
  fixes k :: nat
  assumes "k \<le> 8"
  shows "((of_nat k :: c_char) = 3 \<longleftrightarrow> k = 3)"
    and "((of_nat k :: c_char) < 2 \<longleftrightarrow> k < 2)"
    and "((of_nat k :: c_char) > 3 \<longleftrightarrow> k > 3)"
proof -
  have u: "unat (of_nat k :: c_char) = k"
    using assms by (simp add: unat_of_nat)
  have "(of_nat k :: c_char) = 3 \<longleftrightarrow> unat (of_nat k :: c_char) = unat (3 :: c_char)"
    by (simp only: word_unat_eq_iff)
  then show "((of_nat k :: c_char) = 3 \<longleftrightarrow> k = 3)"
    using u by simp
  show "((of_nat k :: c_char) < 2 \<longleftrightarrow> k < 2)"
    using u by (simp add: word_less_nat_alt)
  show "((of_nat k :: c_char) > 3 \<longleftrightarrow> k > 3)"
    using u by (simp add: word_less_nat_alt)
qed

lemma indicator_le: "indicator c \<le> 1"
  by (simp add: indicator_def)

lemma in_grid_neighbours_llong:
  assumes "grid_wf g" "in_grid g i j"
  shows "is_llong (i - 1)" "is_llong i" "is_llong (i + 1)"
    "is_llong (j - 1)" "is_llong j" "is_llong (j + 1)"
  using assms by (simp_all add: grid_wf_def in_grid_def is_llong_def LLONG_MIN_def)

lemma in_grid_same_shape: "same_shape g h \<Longrightarrow> in_grid h x y = in_grid g x y"
  by (simp add: same_shape_def in_grid_def)

lemma setCell_written:
  assumes "grid_wf g" "in_grid g x y" "s = GOL__CELL_STATE__OFF \<or> s = GOL__CELL_STATE__ON"
  shows "setCell g x y s = done_with (0, written g x y s)"
  using assms by (auto simp: setCell_inside written_def)

lemma iterateGame_cell_result:
  assumes src: "readable src" and trg: "grid_wf trg" and sh: "same_shape src trg"
    and ij: "in_grid src i j"
  shows "iterateGame_cell src trg i j = done_with (written trg i j (next_state src i j))"
proof -
  have wf: "grid_wf src" using src by (simp add: readable_def)
  note ll = in_grid_neighbours_llong [OF wf ij]
  obtain n1 where n1: "getCell src (i - 1) (j - 1) = done_with n1"
      "n1 = GOL__CELL_STATE__OFF \<or> n1 = GOL__CELL_STATE__ON"
    using getCell_defined [OF src ll(1) ll(4)] by blast
  obtain n2 where n2: "getCell src (i - 1) j = done_with n2"
      "n2 = GOL__CELL_STATE__OFF \<or> n2 = GOL__CELL_STATE__ON"
    using getCell_defined [OF src ll(1) ll(5)] by blast
  obtain n3 where n3: "getCell src (i - 1) (j + 1) = done_with n3"
      "n3 = GOL__CELL_STATE__OFF \<or> n3 = GOL__CELL_STATE__ON"
    using getCell_defined [OF src ll(1) ll(6)] by blast
  obtain n4 where n4: "getCell src i (j - 1) = done_with n4"
      "n4 = GOL__CELL_STATE__OFF \<or> n4 = GOL__CELL_STATE__ON"
    using getCell_defined [OF src ll(2) ll(4)] by blast
  obtain n5 where n5: "getCell src i (j + 1) = done_with n5"
      "n5 = GOL__CELL_STATE__OFF \<or> n5 = GOL__CELL_STATE__ON"
    using getCell_defined [OF src ll(2) ll(6)] by blast
  obtain n6 where n6: "getCell src (i + 1) (j - 1) = done_with n6"
      "n6 = GOL__CELL_STATE__OFF \<or> n6 = GOL__CELL_STATE__ON"
    using getCell_defined [OF src ll(3) ll(4)] by blast
  obtain n7 where n7: "getCell src (i + 1) j = done_with n7"
      "n7 = GOL__CELL_STATE__OFF \<or> n7 = GOL__CELL_STATE__ON"
    using getCell_defined [OF src ll(3) ll(5)] by blast
  obtain n8 where n8: "getCell src (i + 1) (j + 1) = done_with n8"
      "n8 = GOL__CELL_STATE__OFF \<or> n8 = GOL__CELL_STATE__ON"
    using getCell_defined [OF src ll(3) ll(6)] by blast
  obtain c where c: "getCell src i j = done_with c"
      "c = GOL__CELL_STATE__OFF \<or> c = GOL__CELL_STATE__ON"
    using getCell_defined [OF src ll(2) ll(5)] by blast
  define k where "k = indicator n1 + indicator n2 + indicator n3 + indicator n4 +
    indicator n5 + indicator n6 + indicator n7 + indicator n8"
  have count: "on_neighbours src i j = k"
    by (simp add: on_neighbours_def neighbour_offsets_def is_on_def k_def indicator_def
        n1(1) n2(1) n3(1) n4(1) n5(1) n6(1) n7(1) n8(1))
  have "n1 + n2 + n3 + n4 + n5 + n6 + n7 + n8 =
      of_nat (indicator n1) + of_nat (indicator n2) + of_nat (indicator n3) +
      of_nat (indicator n4) + of_nat (indicator n5) + of_nat (indicator n6) +
      of_nat (indicator n7) + of_nat (indicator n8)"
    using state_as_indicator [OF n1(2)] state_as_indicator [OF n2(2)]
      state_as_indicator [OF n3(2)] state_as_indicator [OF n4(2)]
      state_as_indicator [OF n5(2)] state_as_indicator [OF n6(2)]
      state_as_indicator [OF n7(2)] state_as_indicator [OF n8(2)]
    by simp
  then have sum: "n1 + n2 + n3 + n4 + n5 + n6 + n7 + n8 = of_nat k"
    by (simp add: k_def)
  have "k \<le> 8"
    using indicator_le [of n1] indicator_le [of n2] indicator_le [of n3] indicator_le [of n4]
      indicator_le [of n5] indicator_le [of n6] indicator_le [of n7] indicator_le [of n8]
    unfolding k_def by linarith
  note tests = small_count_tests [OF this]
  have on: "is_on src i j \<longleftrightarrow> c \<noteq> GOL__CELL_STATE__OFF"
    using c by (auto simp: is_on_def)
  have tij: "in_grid trg i j"
    using ij sh by (simp add: in_grid_same_shape)
  have next_cases: "next_state src i j = GOL__CELL_STATE__OFF \<or> next_state src i j = GOL__CELL_STATE__ON"
    by (simp add: next_state_def b3s23_def)
  have w: "setCell trg i j s = done_with (0, written trg i j s)"
    if "s = GOL__CELL_STATE__OFF \<or> s = GOL__CELL_STATE__ON" for s
    using setCell_written [OF trg tij that] .
  show ?thesis
    unfolding iterateGame_cell_def n1(1) n2(1) n3(1) n4(1) n5(1) n6(1) n7(1) n8(1) c(1)
      and_then_done Let_def add_0 sum tests
    by (auto simp: w next_state_def b3s23_def on count)
qed

section \<open>The loops of \<open>iterateGame\<close>\<close>

lemma readable_if_in_grid:
  "grid_wf g \<Longrightarrow> valid_rule (outOfBoundsRule g) \<Longrightarrow> in_grid g i j \<Longrightarrow> readable g"
  by (auto simp: readable_def in_grid_def)

lemma next_state_cases:
  "next_state g x y = GOL__CELL_STATE__OFF \<or> next_state g x y = GOL__CELL_STATE__ON"
  by (simp add: next_state_def b3s23_def)

lemma grid_wf_written: "grid_wf g \<Longrightarrow> grid_wf (written g x y s)"
  by (simp add: written_def grid_wf_with_storage_char)

lemma same_shape_written: "same_shape g (written g x y s)"
  by (simp add: same_shape_def written_def)

lemma same_shape_refl: "same_shape g g"
  by (simp add: same_shape_def)

lemma same_shape_trans: "same_shape g h \<Longrightarrow> same_shape h k \<Longrightarrow> same_shape g k"
  by (simp add: same_shape_def)

lemma getCell_written:
  assumes "grid_wf g" "in_grid g x y" "in_grid g x' y'"
    and "s = GOL__CELL_STATE__OFF \<or> s = GOL__CELL_STATE__ON"
  shows "getCell (written g x y s) x' y' = (if x' = x \<and> y' = y then done_with s else getCell g x' y')"
  using assms
  by (auto simp: written_def getCell_inside grid_wf_with_storage_char
      storage_char_with_storage_char or_1_nonzero)

lemma refreshed_written:
  assumes "grid_wf trg" "in_grid trg i j"
  shows "refreshed (\<lambda>x y. x = i \<and> y = j) src trg (written trg i j (next_state src i j))"
  using assms next_state_cases [of src i j]
  by (simp add: refreshed_def grid_wf_written same_shape_written getCell_written)

lemma refreshed_none:
  assumes "grid_wf trg" "\<And>x y. in_grid trg x y \<Longrightarrow> \<not> P x y"
  shows "refreshed P src trg trg"
  using assms by (simp add: refreshed_def same_shape_refl)

lemma refreshed_compose:
  assumes 1: "refreshed P1 src trg t1" and 2: "refreshed P2 src t1 t"
    and P: "\<And>x y. in_grid trg x y \<Longrightarrow> P x y \<longleftrightarrow> P1 x y \<or> P2 x y"
  shows "refreshed P src trg t"
proof -
  have sh: "same_shape trg t1" "same_shape t1 t" and wf: "grid_wf t"
    using 1 2 by (simp_all add: refreshed_def)
  have "getCell t x y = (if P x y then done_with (next_state src x y) else getCell trg x y)"
    if xy: "in_grid trg x y" for x y
  proof -
    from xy sh(1) have xy1: "in_grid t1 x y" by (simp add: in_grid_same_shape)
    have a: "getCell t x y = (if P2 x y then done_with (next_state src x y) else getCell t1 x y)"
      using 2 xy1 by (simp add: refreshed_def)
    have b: "getCell t1 x y = (if P1 x y then done_with (next_state src x y) else getCell trg x y)"
      using 1 xy by (simp add: refreshed_def)
    show ?thesis using a b P [OF xy] by simp
  qed
  with wf same_shape_trans [OF sh] show ?thesis
    by (simp add: refreshed_def)
qed

lemma iterateGame_j_result:
  assumes "grid_wf src" "valid_rule (outOfBoundsRule src)" "grid_wf trg" "same_shape src trg"
    and "sizeY = gridSizeY src" "0 \<le> i" "i < gridSizeX src" "0 \<le> j"
  shows "\<exists>t. iterateGame_j src sizeY i j trg = done_with t \<and>
             refreshed (\<lambda>x y. x = i \<and> j \<le> y) src trg t"
  using assms
proof (induction src sizeY i j trg rule: iterateGame_j.induct)
  case (1 src sizeY i j trg)
  show ?case
  proof (cases "j < sizeY")
    case True
    let ?t1 = "written trg i j (next_state src i j)"
    have ij: "in_grid src i j"
      using True "1.prems" by (simp add: in_grid_def)
    then have tij: "in_grid trg i j"
      using "1.prems"(4) by (simp add: in_grid_same_shape)
    have rd: "readable src"
      using "1.prems"(1,2) ij by (rule readable_if_in_grid)
    have cell: "iterateGame_cell src trg i j = done_with ?t1"
      using rd "1.prems"(3,4) ij by (rule iterateGame_cell_result)
    have r1: "refreshed (\<lambda>x y. x = i \<and> y = j) src trg ?t1"
      using "1.prems"(3) tij by (rule refreshed_written)
    have wf1: "grid_wf ?t1" and sh1: "same_shape src ?t1"
      using "1.prems"(3,4) same_shape_trans [OF _ same_shape_written]
      by (simp_all add: grid_wf_written)
    obtain t where t: "iterateGame_j src sizeY i (j + 1) ?t1 = done_with t"
        "refreshed (\<lambda>x y. x = i \<and> j + 1 \<le> y) src ?t1 t"
      using "1.IH" [OF True, of ?t1] cell "1.prems" wf1 sh1
      by (auto simp: done_with_def)
    have "iterateGame_j src sizeY i j trg = done_with t"
      using True cell t(1) by (subst iterateGame_j.simps) simp
    moreover have "refreshed (\<lambda>x y. x = i \<and> j \<le> y) src trg t"
      using r1 t(2) by (rule refreshed_compose) auto
    ultimately show ?thesis by blast
  next
    case False
    have "iterateGame_j src sizeY i j trg = done_with trg"
      using False by (subst iterateGame_j.simps) simp
    moreover have "refreshed (\<lambda>x y. x = i \<and> j \<le> y) src trg trg"
      using "1.prems"(3)
    proof (rule refreshed_none)
      fix x y assume "in_grid trg x y"
      then have "y < sizeY"
        using "1.prems"(4,5) by (simp add: in_grid_def same_shape_def)
      with False show "\<not> (x = i \<and> j \<le> y)" by simp
    qed
    ultimately show ?thesis by blast
  qed
qed

lemma iterateGame_i_result:
  assumes "grid_wf src" "valid_rule (outOfBoundsRule src)" "grid_wf trg" "same_shape src trg"
    and "sizeX = gridSizeX src" "sizeY = gridSizeY src" "0 \<le> i"
  shows "\<exists>t. iterateGame_i src sizeX sizeY i trg = done_with t \<and>
             refreshed (\<lambda>x y. i \<le> x) src trg t"
  using assms
proof (induction src sizeX sizeY i trg rule: iterateGame_i.induct)
  case (1 src sizeX sizeY i trg)
  show ?case
  proof (cases "i < sizeX")
    case True
    obtain t1 where t1: "iterateGame_j src sizeY i 0 trg = done_with t1"
        "refreshed (\<lambda>x y. x = i \<and> 0 \<le> y) src trg t1"
      using iterateGame_j_result [of src trg sizeY i 0] "1.prems" True by auto
    have wf1: "grid_wf t1" and sh1: "same_shape src t1"
      using t1(2) "1.prems"(4) by (auto simp: refreshed_def intro: same_shape_trans)
    obtain t where t: "iterateGame_i src sizeX sizeY (i + 1) t1 = done_with t"
        "refreshed (\<lambda>x y. i + 1 \<le> x) src t1 t"
      using "1.IH" [OF True, of t1] t1(1) "1.prems" wf1 sh1
      by (auto simp: done_with_def)
    have "iterateGame_i src sizeX sizeY i trg = done_with t"
      using True t1(1) t(1) by (subst iterateGame_i.simps) simp
    moreover have "refreshed (\<lambda>x y. i \<le> x) src trg t"
      using t1(2) t(2) by (rule refreshed_compose) (auto simp: in_grid_def)
    ultimately show ?thesis by blast
  next
    case False
    have "iterateGame_i src sizeX sizeY i trg = done_with trg"
      using False by (subst iterateGame_i.simps) simp
    moreover have "refreshed (\<lambda>x y. i \<le> x) src trg trg"
      using "1.prems"(3)
    proof (rule refreshed_none)
      fix x y assume "in_grid trg x y"
      then have "x < sizeX"
        using "1.prems"(4,5) by (simp add: in_grid_def same_shape_def)
      with False show "\<not> i \<le> x" by simp
    qed
    ultimately show ?thesis by blast
  qed
qed

lemma refreshed_weaken:
  assumes "refreshed P src trg t" "\<And>x y. in_grid trg x y \<Longrightarrow> P x y = Q x y"
  shows "refreshed Q src trg t"
  using assms by (simp add: refreshed_def)

lemma same_shape_sym: "same_shape g h \<Longrightarrow> same_shape h g"
  by (simp add: same_shape_def)

lemma iterateGame_from_A:
  assumes "game_wf gm" "currentGridPtr gm = PtrGridA"
  shows "\<exists>t. iterateGame gm = done_with (gm\<lparr>gridB := t, currentGridPtr := PtrGridB\<rparr>) \<and>
             refreshed (\<lambda>x y. True) (gridA gm) (gridB gm) t"
proof -
  obtain t where t: "iterateGame_i (gridA gm) (gridSizeX (gridA gm)) (gridSizeY (gridA gm)) 0 (gridB gm)
        = done_with t" "refreshed (\<lambda>x y. 0 \<le> x) (gridA gm) (gridB gm) t"
  proof -
    have "grid_wf (gridA gm)" "valid_rule (outOfBoundsRule (gridA gm))" "grid_wf (gridB gm)"
      "same_shape (gridA gm) (gridB gm)"
      using assms(1) by (simp_all add: game_wf_def)
    from iterateGame_i_result [OF this refl refl, of 0] that show ?thesis
      by blast
  qed
  have "refreshed (\<lambda>x y. True) (gridA gm) (gridB gm) t"
    using t(2) by (rule refreshed_weaken) (simp add: in_grid_def)
  with t(1) assms(2) show ?thesis
    by (auto simp: iterateGame_def)
qed

lemma iterateGame_from_B:
  assumes "game_wf gm" "currentGridPtr gm = PtrGridB"
  shows "\<exists>t. iterateGame gm = done_with (gm\<lparr>gridA := t, currentGridPtr := PtrGridA\<rparr>) \<and>
             refreshed (\<lambda>x y. True) (gridB gm) (gridA gm) t"
proof -
  have sh: "same_shape (gridB gm) (gridA gm)" and r: "valid_rule (outOfBoundsRule (gridB gm))"
    using assms(1) by (simp_all add: game_wf_def same_shape_def)
  obtain t where t: "iterateGame_i (gridB gm) (gridSizeX (gridB gm)) (gridSizeY (gridB gm)) 0 (gridA gm)
        = done_with t" "refreshed (\<lambda>x y. 0 \<le> x) (gridB gm) (gridA gm) t"
  proof -
    have "grid_wf (gridB gm)" "grid_wf (gridA gm)"
      using assms(1) by (simp_all add: game_wf_def)
    from iterateGame_i_result [OF this(1) r this(2) sh refl refl, of 0] that show ?thesis
      by blast
  qed
  have "refreshed (\<lambda>x y. True) (gridB gm) (gridA gm) t"
    using t(2) by (rule refreshed_weaken) (simp add: in_grid_def)
  with t(1) assms(2) show ?thesis
    by (auto simp: iterateGame_def)
qed

lemma iterateGame_result:
  assumes "game_wf gm"
  shows "\<exists>gm'. iterateGame gm = done_with gm' \<and> game_wf gm' \<and>
           currentGridPtr gm' = other_ptr (currentGridPtr gm) \<and>
           grid_at gm' (currentGridPtr gm) = grid_at gm (currentGridPtr gm) \<and>
           same_shape (grid_at gm (currentGridPtr gm)) (grid_at gm' (currentGridPtr gm')) \<and>
           (\<forall>x y. in_grid (grid_at gm (currentGridPtr gm)) x y \<longrightarrow>
              getCell (grid_at gm' (currentGridPtr gm')) x y =
                done_with (next_state (grid_at gm (currentGridPtr gm)) x y))"
proof (cases "currentGridPtr gm")
  case PtrGridA
  obtain t where t: "iterateGame gm = done_with (gm\<lparr>gridB := t, currentGridPtr := PtrGridB\<rparr>)"
      "refreshed (\<lambda>x y. True) (gridA gm) (gridB gm) t"
    using iterateGame_from_A [OF assms PtrGridA] by blast
  have sh: "same_shape (gridA gm) (gridB gm)" using assms by (simp add: game_wf_def)
  have sh': "same_shape (gridA gm) t"
    using t(2) sh by (auto simp: refreshed_def intro: same_shape_trans)
  have "game_wf (gm\<lparr>gridB := t, currentGridPtr := PtrGridB\<rparr>)"
    using assms t(2) sh' by (simp add: game_wf_def refreshed_def)
  moreover have "getCell t x y = done_with (next_state (gridA gm) x y)" if "in_grid (gridA gm) x y" for x y
    using t(2) that in_grid_same_shape [OF sh] by (simp add: refreshed_def)
  ultimately show ?thesis
    using t(1) PtrGridA sh' by (simp add: grid_at_def other_ptr_def)
next
  case PtrGridB
  obtain t where t: "iterateGame gm = done_with (gm\<lparr>gridA := t, currentGridPtr := PtrGridA\<rparr>)"
      "refreshed (\<lambda>x y. True) (gridB gm) (gridA gm) t"
    using iterateGame_from_B [OF assms PtrGridB] by blast
  have sh: "same_shape (gridB gm) (gridA gm)"
    using assms by (simp add: game_wf_def same_shape_sym)
  have sh': "same_shape (gridB gm) t"
    using t(2) sh by (auto simp: refreshed_def intro: same_shape_trans)
  have "game_wf (gm\<lparr>gridA := t, currentGridPtr := PtrGridA\<rparr>)"
    using assms t(2) same_shape_sym [OF sh'] by (simp add: game_wf_def refreshed_def same_shape_def)
  moreover have "getCell t x y = done_with (next_state (gridB gm) x y)" if "in_grid (gridB gm) x y" for x y
    using t(2) that in_grid_same_shape [OF sh] by (simp add: refreshed_def)
  ultimately show ?thesis
    using t(1) PtrGridB sh' by (simp add: grid_at_def other_ptr_def)
next
  case PtrElsewhere
  with assms show ?thesis by (simp add: game_wf_def)
qed

lemma in_grid_on_or_off:
  assumes "grid_wf g" "valid_rule (outOfBoundsRule g)" "in_grid g x y"
  shows "is_on g x y \<or> is_off g x y"
  using assms by (simp add: is_on_def is_off_def getCell_inside)

lemma blinker_game_wf: "game_wf blinker_game"
  by (simp add: blinker_game_def game_wf_def grid_wf_def same_shape_def valid_rule_def
      LLONG_MAX_def)

section \<open>One step applies the rule B3/S23\<close>

text \<open>
  Claim C1. For every game whose two grids are well-formed and have identical width, height
  and boundary policy (one of the three policies), \<open>iterateGame\<close> returns, flips
  \<open>currentGridPtr\<close> to the other grid, and that grid then holds, for every cell \<open>(x, y)\<close>
  of the grid, exactly the rule B3/S23 applied to the source grid: an Off cell becomes On iff
  exactly 3 of its 8 neighbours, each read via \<open>getCell\<close>, are On, an On cell stays On iff
  its neighbour count is 2 or 3, and otherwise the cell is Off. This holds whatever the
  destination grid held before: no cell keeps a stale value. The games that \<open>createGame\<close>
  returns are such games (\<open>createGame_game_wf\<close>), and so is the game after the step
  (\<open>iterateGame_result\<close>).
\<close>

theorem iterateGame_b3s23:
  assumes "game_wf gm"
  shows "\<exists>gm'. iterateGame gm = done_with gm' \<and>
           currentGridPtr gm' = other_ptr (currentGridPtr gm) \<and>
           same_shape (live_grid gm) (live_grid gm') \<and>
           (\<forall>x y. in_grid (live_grid gm) x y \<longrightarrow>
              (is_on (live_grid gm) x y \<or> is_off (live_grid gm) x y) \<and>
              getCell (live_grid gm') x y =
                done_with (b3s23 (is_on (live_grid gm) x y) (on_neighbours (live_grid gm) x y)))"
proof -
  let ?src = "live_grid gm"
  obtain gm' where gm': "iterateGame gm = done_with gm'"
      "currentGridPtr gm' = other_ptr (currentGridPtr gm)"
      "same_shape ?src (live_grid gm')"
      "\<forall>x y. in_grid ?src x y \<longrightarrow> getCell (live_grid gm') x y = done_with (next_state ?src x y)"
    using iterateGame_result [OF assms] unfolding live_grid_def by blast
  have src: "grid_wf ?src" "valid_rule (outOfBoundsRule ?src)"
    using assms by (simp_all add: game_wf_def live_grid_def grid_at_def same_shape_def)
  show ?thesis
    using gm' in_grid_on_or_off [OF src]
    by (simp add: next_state_def)
qed

theorem iterateGame_b3s23_witness:
  "\<exists>gm'. iterateGame blinker_game = done_with gm' \<and>
     currentGridPtr gm' = other_ptr (currentGridPtr blinker_game) \<and>
     same_shape (live_grid blinker_game) (live_grid gm') \<and>
     (\<forall>x y. in_grid (live_grid blinker_game) x y \<longrightarrow>
        (is_on (live_grid blinker_game) x y \<or> is_off (live_grid blinker_game) x y) \<and>
        getCell (live_grid gm') x y =
          done_with (b3s23 (is_on (live_grid blinker_game) x y)
                           (on_neighbours (live_grid blinker_game) x y)))"
  using blinker_game_wf by (rule iterateGame_b3s23)

section \<open>Patterns\<close>

lemma blinker_row:
  "life_rule {(1, 0), (1, 1), (1, 2)} x y =
     (if (x, y) \<in> {(0, 1), (1, 1), (2, 1)} then GOL__CELL_STATE__ON else GOL__CELL_STATE__OFF)"
  unfolding life_rule_def neighbour_offsets_def b3s23_def
  by (auto simp: )

lemma blinker_column:
  "life_rule {(0, 1), (1, 1), (2, 1)} x y =
     (if (x, y) \<in> {(1, 0), (1, 1), (1, 2)} then GOL__CELL_STATE__ON else GOL__CELL_STATE__OFF)"
  unfolding life_rule_def neighbour_offsets_def b3s23_def
  by (auto simp: )

lemma shows_cells_iff:
  "shows_cells g S \<longleftrightarrow>
     (\<forall>x y. in_grid g x y \<longrightarrow>
        getCell g x y = done_with (if (x, y) \<in> S then GOL__CELL_STATE__ON else GOL__CELL_STATE__OFF))"
  by (auto simp: shows_cells_def in_grid_def)

lemma getCell_torus_wrap:
  assumes "grid_wf g" "outOfBoundsRule g = GOL__OOBR__TORUS"
    and "0 < gridSizeX g" "0 < gridSizeY g" "is_llong x" "is_llong y"
  shows "getCell g x y = getCell g (x mod gridSizeX g) (y mod gridSizeY g)"
  using assms by (simp add: getCell_torus getCell_inside in_grid_mod)

lemma all_off_never_on:
  assumes rd: "readable g" and rule: "outOfBoundsRule g \<noteq> GOL__OOBR__ALL_ON"
    and off: "shows_cells g {}" and ll: "is_llong x" "is_llong y"
  shows "\<not> is_on g x y"
proof -
  have inside: "getCell g a b = done_with GOL__CELL_STATE__OFF" if "in_grid g a b" for a b
    using off that by (simp add: shows_cells_iff)
  have "getCell g x y = done_with GOL__CELL_STATE__OFF"
  proof (cases "in_grid g x y")
    case True
    then show ?thesis by (rule inside)
  next
    case False
    show ?thesis
    proof (cases "outOfBoundsRule g = GOL__OOBR__TORUS")
      case True
      with rd have pos: "0 < gridSizeX g" "0 < gridSizeY g" and wf: "grid_wf g"
        by (simp_all add: readable_def)
      have "getCell g x y = getCell g (x mod gridSizeX g) (y mod gridSizeY g)"
        using wf True pos ll by (rule getCell_torus_wrap)
      also have "\<dots> = done_with GOL__CELL_STATE__OFF"
        using pos by (intro inside in_grid_mod)
      finally show ?thesis .
    next
      case nt: False
      with rd rule have "outOfBoundsRule g = GOL__OOBR__ALL_OFF"
        by (auto simp: readable_def valid_rule_def)
      with False nt show ?thesis by (simp add: getCell_outside)
    qed
  qed
  then show ?thesis by (simp add: is_on_def)
qed

lemma all_off_next_state:
  assumes wf: "grid_wf g" and vr: "valid_rule (outOfBoundsRule g)"
    and rule: "outOfBoundsRule g \<noteq> GOL__OOBR__ALL_ON"
    and off: "shows_cells g {}" and xy: "in_grid g x y"
  shows "next_state g x y = GOL__CELL_STATE__OFF"
proof -
  have rd: "readable g" using wf vr xy by (rule readable_if_in_grid)
  note ll = in_grid_neighbours_llong [OF wf xy]
  note never = all_off_never_on [OF rd rule off]
  have "on_neighbours g x y = 0"
    using never ll by (simp add: on_neighbours_def neighbour_offsets_def)
  moreover have "\<not> is_on g x y" using never ll by simp
  ultimately show ?thesis by (simp add: next_state_def b3s23_def)
qed

lemma pattern_is_on:
  assumes "outOfBoundsRule g = GOL__OOBR__ALL_OFF" and "shows_cells g S"
    and "\<And>a b. (a, b) \<in> S \<Longrightarrow> in_grid g a b"
  shows "is_on g x y \<longleftrightarrow> (x, y) \<in> S"
proof (cases "in_grid g x y")
  case True
  with assms(2) show ?thesis by (simp add: shows_cells_iff is_on_def)
next
  case False
  with assms(3) have "(x, y) \<notin> S" by blast
  with False assms(1) show ?thesis by (simp add: is_on_def getCell_outside)
qed

lemma pattern_next_state:
  assumes "outOfBoundsRule g = GOL__OOBR__ALL_OFF" and "shows_cells g S"
    and "\<And>a b. (a, b) \<in> S \<Longrightarrow> in_grid g a b"
  shows "next_state g x y = life_rule S x y"
  by (simp add: next_state_def life_rule_def on_neighbours_def pattern_is_on [OF assms])

lemma iterateGame_pattern:
  assumes gm: "game_wf gm" and rule: "outOfBoundsRule (live_grid gm) = GOL__OOBR__ALL_OFF"
    and S: "shows_cells (live_grid gm) S" "\<And>a b. (a, b) \<in> S \<Longrightarrow> in_grid (live_grid gm) a b"
    and S': "\<And>x y. life_rule S x y =
                (if (x, y) \<in> S' then GOL__CELL_STATE__ON else GOL__CELL_STATE__OFF)"
  shows "\<exists>gm'. iterateGame gm = done_with gm' \<and> game_wf gm' \<and>
           same_shape (live_grid gm) (live_grid gm') \<and> shows_cells (live_grid gm') S'"
proof -
  obtain gm' where gm': "iterateGame gm = done_with gm'" "game_wf gm'"
      "same_shape (live_grid gm) (live_grid gm')"
      "\<forall>x y. in_grid (live_grid gm) x y \<longrightarrow>
         getCell (live_grid gm') x y = done_with (next_state (live_grid gm) x y)"
    using iterateGame_result [OF gm] unfolding live_grid_def by blast
  have "shows_cells (live_grid gm') S'"
    unfolding shows_cells_iff in_grid_same_shape [OF gm'(3)]
    using gm'(4) by (simp add: pattern_next_state [OF rule S] S')
  with gm' show ?thesis by blast
qed

lemma shows_cells_blank: 
  assumes "0 \<le> sizeX" "sizeX \<le> LLONG_MAX" "0 \<le> sizeY" "sizeY \<le> LLONG_MAX"
  shows "shows_cells (blank_grid sizeX sizeY rule) {}"
  using grid_wf_blank [OF assms]
  by (simp add: shows_cells_iff getCell_inside storage_char_blank)

lemma game_wf_blank:
  assumes "0 \<le> sizeX" "sizeX \<le> LLONG_MAX" "0 \<le> sizeY" "sizeY \<le> LLONG_MAX" "valid_rule rule"
    "p \<noteq> PtrElsewhere"
  shows "game_wf \<lparr>gridA = blank_grid sizeX sizeY rule, gridB = blank_grid sizeX sizeY rule,
                    currentGridPtr = p\<rparr>"
  using grid_wf_blank [OF assms(1-4)] assms(5,6)
  by (simp add: game_wf_def same_shape_def)

section \<open>The grid that is fully Off\<close>

text \<open>
  Claim C7 says that a fully-Off grid stays fully-Off after a step under any boundary policy.
  Under the rule AllOn it does not: the cells outside the grid read as On, so on the blank
  3 by 2 game that \<open>createGame\<close> returns, the cells \<open>(1, 0)\<close> and \<open>(1, 1)\<close> have exactly
  3 On neighbours and are On after one step.
\<close>

theorem all_on_counterexample:
  "shows_cells (blank_grid 3 2 GOL__OOBR__ALL_ON) {} \<and>
   createGame True True True 3 2 GOL__OOBR__ALL_ON =
     done_with (LiveGame \<lparr>gridA = blank_grid 3 2 GOL__OOBR__ALL_ON,
                           gridB = blank_grid 3 2 GOL__OOBR__ALL_ON, currentGridPtr = PtrGridA\<rparr>) \<and>
   iterateGame \<lparr>gridA = blank_grid 3 2 GOL__OOBR__ALL_ON, gridB = blank_grid 3 2 GOL__OOBR__ALL_ON,
                 currentGridPtr = PtrGridA\<rparr> =
     done_with \<lparr>gridA = blank_grid 3 2 GOL__OOBR__ALL_ON,
                 gridB = \<lparr>origin = [[0, 0], [1, 1], [0, 0]], gridSizeX = 3, gridSizeY = 2,
                           arraySizeX = 3, arraySizeY = 2, outOfBoundsRule = GOL__OOBR__ALL_ON\<rparr>,
                 currentGridPtr = PtrGridB\<rparr> \<and>
   getCell \<lparr>origin = [[0, 0], [1, 1], [0, 0]], gridSizeX = 3, gridSizeY = 2,
             arraySizeX = 3, arraySizeY = 2, outOfBoundsRule = GOL__OOBR__ALL_ON\<rparr> 1 0 =
     done_with GOL__CELL_STATE__ON"
proof -
  let ?g = "blank_grid 3 2 GOL__OOBR__ALL_ON"
  let ?t = "\<lparr>origin = [[0, 0], [1, 1], [0, 0]], gridSizeX = 3, gridSizeY = 2,
             arraySizeX = 3, arraySizeY = 2, outOfBoundsRule = GOL__OOBR__ALL_ON\<rparr>"
  have wf: "grid_wf ?g"
    by (simp add: grid_wf_blank LLONG_MAX_def)
  have rd: "getCell ?g x y =
      done_with (if in_grid ?g x y then GOL__CELL_STATE__OFF else GOL__CELL_STATE__ON)" for x y
    using wf by (simp add: getCell_inside getCell_outside storage_char_blank)
  have blank: "?g = \<lparr>origin = [[0, 0], [0, 0], [0, 0]], gridSizeX = 3, gridSizeY = 2,
      arraySizeX = 3, arraySizeY = 2, outOfBoundsRule = GOL__OOBR__ALL_ON\<rparr>"
    by (simp add: blank_grid_def numeral_2_eq_2 numeral_3_eq_3)
  have "iterateGame \<lparr>gridA = ?g, gridB = ?g, currentGridPtr = PtrGridA\<rparr> =
     done_with \<lparr>gridA = ?g,
                 gridB = with_storage_char (with_storage_char (with_storage_char (with_storage_char
                    (with_storage_char (with_storage_char ?g 0 0 0) 0 1 0) 1 0 1) 1 1 1) 2 0 0) 2 1 0,
                 currentGridPtr = PtrGridB\<rparr>"
    by (simp add: iterateGame_def iterateGame_i.simps iterateGame_j.simps iterateGame_cell_def
        rd in_grid_def setCell_inside wf grid_wf_with_storage_char
        storage_char_with_storage_char storage_char_blank
        GOL__CELL_STATE__ON_def GOL__CELL_STATE__OFF_def)
  then have step: "iterateGame \<lparr>gridA = ?g, gridB = ?g, currentGridPtr = PtrGridA\<rparr> =
     done_with \<lparr>gridA = ?g, gridB = ?t, currentGridPtr = PtrGridB\<rparr>"
    by (simp add: with_storage_char_def blank)
  have "grid_wf ?t"
    by (simp add: grid_wf_def LLONG_MAX_def)
  then have "getCell ?t 1 0 = done_with GOL__CELL_STATE__ON"
    by (simp add: getCell_inside in_grid_def storage_char_def)
  moreover have "createGame True True True 3 2 GOL__OOBR__ALL_ON =
      done_with (LiveGame \<lparr>gridA = ?g, gridB = ?g, currentGridPtr = PtrGridA\<rparr>)"
    by (simp add: createGame_def createGrid_ok)
  moreover have "shows_cells ?g {}"
    by (simp add: shows_cells_blank LLONG_MAX_def)
  ultimately show ?thesis using step by simp
qed

text \<open>
  Claim C7, amended. For every well-formed game whose boundary policy is AllOff or Torus, if
  every cell of the current grid is Off then \<open>iterateGame\<close> returns and every cell of the
  new current grid is Off.
\<close>

theorem all_off_stays_off:
  assumes "game_wf gm" and "outOfBoundsRule (live_grid gm) \<noteq> GOL__OOBR__ALL_ON"
    and "shows_cells (live_grid gm) {}"
  shows "\<exists>gm'. iterateGame gm = done_with gm' \<and> shows_cells (live_grid gm') {}"
proof -
  let ?src = "live_grid gm"
  obtain gm' where gm': "iterateGame gm = done_with gm'"
      "same_shape ?src (live_grid gm')"
      "\<forall>x y. in_grid ?src x y \<longrightarrow> getCell (live_grid gm') x y = done_with (next_state ?src x y)"
    using iterateGame_result [OF assms(1)] unfolding live_grid_def by blast
  have src: "grid_wf ?src" "valid_rule (outOfBoundsRule ?src)"
    using assms(1) by (simp_all add: game_wf_def live_grid_def grid_at_def same_shape_def)
  have "shows_cells (live_grid gm') {}"
    unfolding shows_cells_iff in_grid_same_shape [OF gm'(2)]
    using gm'(3) by (simp add: all_off_next_state [OF src assms(2,3)])
  with gm'(1) show ?thesis by blast
qed

theorem all_off_stays_off_witness:
  "\<exists>gm'. iterateGame \<lparr>gridA = blank_grid 3 3 GOL__OOBR__TORUS, gridB = blank_grid 3 3 GOL__OOBR__TORUS,
                         currentGridPtr = PtrGridA\<rparr> = done_with gm' \<and>
         shows_cells (live_grid gm') {}"
proof (rule all_off_stays_off)
  show "game_wf \<lparr>gridA = blank_grid 3 3 GOL__OOBR__TORUS, gridB = blank_grid 3 3 GOL__OOBR__TORUS,
                   currentGridPtr = PtrGridA\<rparr>"
    by (rule game_wf_blank) (simp_all add: LLONG_MAX_def valid_rule_def)
qed (simp_all add: live_grid_def grid_at_def shows_cells_blank LLONG_MAX_def)

section \<open>The blinker\<close>

lemma blinker_inside:
  assumes "3 \<le> gridSizeX g" "3 \<le> gridSizeY g"
  shows "(a, b) \<in> {(1, 0), (1, 1), (1, 2)} \<Longrightarrow> in_grid g a b"
    and "(a, b) \<in> {(0, 1), (1, 1), (2, 1)} \<Longrightarrow> in_grid g a b"
  using assms by (auto simp: in_grid_def)

lemma below_3: "0 \<le> x \<Longrightarrow> x < 3 \<Longrightarrow> x = 0 \<or> x = 1 \<or> x = (2::int)"
  by arith

lemma blinker_game_shows:
  "shows_cells (live_grid blinker_game) {(1, 0), (1, 1), (1, 2)}"
proof -
  have wf: "grid_wf (live_grid blinker_game)"
    using blinker_game_wf by (simp add: game_wf_def live_grid_def grid_at_def blinker_game_def)
  have "getCell (live_grid blinker_game) x y =
      done_with (if (x, y) \<in> {(1, 0), (1, 1), (1, 2)} then GOL__CELL_STATE__ON
                 else GOL__CELL_STATE__OFF)"
    if "in_grid (live_grid blinker_game) x y" for x y
  proof -
    from that have "x = 0 \<or> x = 1 \<or> x = 2" "y = 0 \<or> y = 1 \<or> y = 2"
      by (simp_all add: in_grid_def live_grid_def grid_at_def blinker_game_def below_3)
    then show ?thesis
      unfolding getCell_inside [OF wf that]
      by (auto simp: storage_char_def live_grid_def grid_at_def blinker_game_def)
  qed
  then show ?thesis by (simp add: shows_cells_iff)
qed

text \<open>
  Claim C8. On a well-formed game under the rule AllOff whose grids are at least 3 wide and
  3 tall and whose current grid holds exactly the three On cells
  \<open>{(1, 0), (1, 1), (1, 2)}\<close>, a first \<open>iterateGame\<close> returns with exactly the On cells
  \<open>{(0, 1), (1, 1), (2, 1)}\<close> in the current grid, and a second one returns with exactly
  the On cells \<open>{(1, 0), (1, 1), (1, 2)}\<close> again.
\<close>

theorem blinker_period_2:
  assumes "game_wf gm" and "outOfBoundsRule (live_grid gm) = GOL__OOBR__ALL_OFF"
    and "3 \<le> gridSizeX (live_grid gm)" and "3 \<le> gridSizeY (live_grid gm)"
    and "shows_cells (live_grid gm) {(1, 0), (1, 1), (1, 2)}"
  shows "\<exists>g1 g2. iterateGame gm = done_with g1 \<and>
           shows_cells (live_grid g1) {(0, 1), (1, 1), (2, 1)} \<and>
           iterateGame g1 = done_with g2 \<and>
           shows_cells (live_grid g2) {(1, 0), (1, 1), (1, 2)}"
proof -
  obtain g1 where g1: "iterateGame gm = done_with g1" "game_wf g1"
      "same_shape (live_grid gm) (live_grid g1)"
      "shows_cells (live_grid g1) {(0, 1), (1, 1), (2, 1)}"
    using iterateGame_pattern [OF assms(1,2,5) blinker_inside(1) [OF assms(3,4)] blinker_row]
    by blast
  have shape1: "outOfBoundsRule (live_grid g1) = GOL__OOBR__ALL_OFF"
      "3 \<le> gridSizeX (live_grid g1)" "3 \<le> gridSizeY (live_grid g1)"
    using g1(3) assms(2-4) by (simp_all add: same_shape_def)
  obtain g2 where g2: "iterateGame g1 = done_with g2"
      "shows_cells (live_grid g2) {(1, 0), (1, 1), (1, 2)}"
    using iterateGame_pattern [OF g1(2) shape1(1) g1(4) blinker_inside(2) [OF shape1(2,3)]
        blinker_column]
    by blast
  from g1(1,4) g2 show ?thesis by blast
qed

theorem blinker_period_2_witness:
  "\<exists>g1 g2. iterateGame blinker_game = done_with g1 \<and>
     shows_cells (live_grid g1) {(0, 1), (1, 1), (2, 1)} \<and>
     iterateGame g1 = done_with g2 \<and>
     shows_cells (live_grid g2) {(1, 0), (1, 1), (1, 2)}"
  using blinker_game_wf _ _ _ blinker_game_shows
  by (rule blinker_period_2) (simp_all add: live_grid_def grid_at_def blinker_game_def)

section \<open>Every storage char holds 0 or 1\<close>

lemma selsectCell_shape_aux:
  assumes "selsectCell g x y = Some r"
  shows "\<forall>idx. r = Inr idx \<longrightarrow> cell_index_ok idx"
proof -
  let ?P = "\<lambda>(g::Grid) (x::int) (y::int) r. \<forall>idx. r = Inr idx \<longrightarrow> cell_index_ok idx"
  have "(case ((g, x), y) of (a, b) \<Rightarrow> (case a of (c, d) \<Rightarrow> ?P c d) b) r"
  proof (rule selsectCell.raw_induct [where P = ?P])
    show "(case ((g, x), y) of (a, b) \<Rightarrow> (case a of (c, d) \<Rightarrow> selsectCell c d) b) = Some r"
      using assms by simp
  next
    fix f :: "Grid \<Rightarrow> int \<Rightarrow> int \<Rightarrow> (fault + CellIndex) option"
    fix g x y r
    assume IH: "\<And>a b c d. f a b c = Some d \<Longrightarrow> \<forall>idx. d = Inr idx \<longrightarrow> cell_index_ok idx"
    assume body: "(if 0 \<le> x \<and> 0 \<le> y \<and> x < gridSizeX g \<and> y < gridSizeY g
      then case lldiv y sizeof_char of None \<Rightarrow> None
           | Some (Inl e) \<Rightarrow> Some (Inl e)
           | Some (Inr division) \<Rightarrow>
               if nat x < length (origin g)
               then Some (Inr \<lparr>storageCharPtr = Some (nat x, nat (quot division)),
                             bitIndex = word_of_int (rem division)\<rparr>)
               else Some (Inl InvalidAccess)
      else if outOfBoundsRule g = GOL__OOBR__TORUS
           then case lldivPositive x (gridSizeX g) of None \<Rightarrow> None
                | Some (Inl e) \<Rightarrow> Some (Inl e)
                | Some (Inr dx) \<Rightarrow>
                    case lldivPositive y (gridSizeY g) of None \<Rightarrow> None
                    | Some (Inl e) \<Rightarrow> Some (Inl e)
                    | Some (Inr dy) \<Rightarrow> f g (rem dx) (rem dy)
           else Some (Inr \<lparr>storageCharPtr = None, bitIndex = word_of_int sizeof_char\<rparr>)) =
      Some r"
    show "\<forall>idx. r = Inr idx \<longrightarrow> cell_index_ok idx"
    proof (cases "0 \<le> x \<and> 0 \<le> y \<and> x < gridSizeX g \<and> y < gridSizeY g")
      case True
      with body show ?thesis
        by (auto simp: lldiv_by_one done_with_def cell_index_ok_def split: if_splits)
    next
      case False
      with body IH show ?thesis
        by (auto simp: cell_index_ok_def sizeof_char_def
            split: if_splits option.splits sum.splits)
    qed
  qed
  then show ?thesis by simp
qed

lemma selsectCell_shape:
  "selsectCell g x y = done_with idx \<Longrightarrow> cell_index_ok idx"
  using selsectCell_shape_aux [of g x y "Inr idx"] by (simp add: done_with_def)

lemma setCell_effect:
  assumes "setCell g x y s = done_with (e, g')"
  shows "g' = g \<or> poked g g'"
proof -
  obtain idx where idx: "selsectCell g x y = done_with idx"
    and rest: "(if bitIndex idx = word_of_int sizeof_char then done_with (1, g)
       else if s = GOL__CELL_STATE__OFF then
         and_then (load g (storageCharPtr idx)) (\<lambda>c.
         and_then (store g (storageCharPtr idx) (c AND logical_not (bit_mask (bitIndex idx)))) (\<lambda>g'.
           done_with (0, g')))
       else if s = GOL__CELL_STATE__ON then
         and_then (load g (storageCharPtr idx)) (\<lambda>c.
         and_then (store g (storageCharPtr idx) (c OR bit_mask (bitIndex idx))) (\<lambda>g'.
           done_with (0, g')))
       else done_with (2, g)) = done_with (e, g')"
    using assms unfolding setCell_def and_then_eq_done by blast
  from selsectCell_shape [OF idx] consider
    "bitIndex idx = 1" | i j where "storageCharPtr idx = Some (i, j)" "bitIndex idx = 0"
    by (auto simp: cell_index_ok_def)
  then show ?thesis
  proof cases
    case 1
    with rest show ?thesis by (simp add: sizeof_char_def)
  next
    case 2
    with rest show ?thesis
      by (auto simp: sizeof_char_def and_then_eq_done load_def store_def logical_not_def poked_def
          split: if_splits)
  qed
qed

lemma poked_same_shape: "poked g g' \<Longrightarrow> same_shape g g'"
  by (auto simp: poked_def same_shape_def)

lemma poked_grid_wf:
  assumes "poked g g'" "grid_wf g"
  shows "grid_wf g'"
proof -
  from assms(1) obtain i j v where "g' = with_storage_char g (int i) (int j) v"
    by (auto simp: poked_def with_storage_char_def)
  with assms(2) show ?thesis by (simp add: grid_wf_with_storage_char)
qed

lemma poked_chars_0_or_1:
  assumes "poked g g'" "chars_0_or_1 g"
  shows "chars_0_or_1 g'"
proof -
  from assms(1) obtain i j v where ij: "i < length (origin g)" "j < length (origin g ! i)"
    and v: "v = 0 \<or> v = origin g ! i ! j OR 1"
    and upd: "g' = g\<lparr>origin := (origin g)[i := (origin g ! i)[j := v]]\<rparr>"
    unfolding poked_def by blast
  have g': "origin g' = (origin g)[i := (origin g ! i)[j := v]]"
    by (simp add: upd)
  have row: "origin g ! i \<in> set (origin g)" using ij(1) by simp
  then have old: "origin g ! i ! j = 0 \<or> origin g ! i ! j = 1"
    using assms(2) ij(2) by (simp add: chars_0_or_1_def)
  with v have v01: "v = 0 \<or> v = 1" by auto
  have "c = 0 \<or> c = 1" if "r \<in> set (origin g')" "c \<in> set r" for r c
  proof -
    from that(1) have "r = (origin g ! i)[j := v] \<or> r \<in> set (origin g)"
      unfolding g' using set_update_subset_insert [of "origin g" i] by auto
    then show ?thesis
    proof
      assume "r = (origin g ! i)[j := v]"
      with that(2) have "c = v \<or> c \<in> set (origin g ! i)"
        using set_update_subset_insert [of "origin g ! i" j v] by auto
      with v01 row assms(2) show ?thesis by (auto simp: chars_0_or_1_def)
    next
      assume "r \<in> set (origin g)"
      with that(2) assms(2) show ?thesis by (simp add: chars_0_or_1_def)
    qed
  qed
  then show ?thesis by (simp add: chars_0_or_1_def)
qed

lemma setCell_grid_inv:
  assumes "setCell g x y s = done_with (e, g')" "grid_inv g"
  shows "grid_inv g'"
  using setCell_effect [OF assms(1)] assms(2)
  by (auto simp: grid_inv_def poked_grid_wf poked_chars_0_or_1)

lemma randomizeGrid_j_grid_inv:
  "randomizeGrid_j rnd sizeY i j kg = done_with kg' \<Longrightarrow> grid_inv (snd kg) \<Longrightarrow> grid_inv (snd kg')"
proof (induction rnd sizeY i j kg arbitrary: kg' rule: randomizeGrid_j.induct)
  case (1 rnd sizeY i j kg)
  show ?case
  proof (cases "j < sizeY")
    case True
    let ?call = "if rnd (fst kg) smod 2 \<noteq> 0
                 then setCell (snd kg) i j GOL__CELL_STATE__OFF
                 else setCell (snd kg) i j GOL__CELL_STATE__ON"
    from "1.prems"(1) True obtain r where r: "?call = done_with r"
      and rec: "randomizeGrid_j rnd sizeY i (j + 1) (Suc (fst kg), snd r) = done_with kg'"
      by (subst (asm) randomizeGrid_j.simps) (auto simp: and_then_eq_done)
    from r obtain s where "setCell (snd kg) i j s = done_with (fst r, snd r)"
      by (cases "rnd (fst kg) smod 2 \<noteq> 0") auto
    then have "grid_inv (snd r)"
      using "1.prems"(2) by (rule setCell_grid_inv)
    with "1.IH" [OF True _ rec] r show ?thesis
      by (simp add: done_with_def)
  next
    case False
    with "1.prems" show ?thesis
      by (subst (asm) randomizeGrid_j.simps) auto
  qed
qed

lemma randomizeGrid_i_grid_inv:
  "randomizeGrid_i rnd sizeX sizeY i kg = done_with kg' \<Longrightarrow> grid_inv (snd kg) \<Longrightarrow> grid_inv (snd kg')"
proof (induction rnd sizeX sizeY i kg arbitrary: kg' rule: randomizeGrid_i.induct)
  case (1 rnd sizeX sizeY i kg)
  show ?case
  proof (cases "i < sizeX")
    case True
    from "1.prems"(1) True obtain r where r: "randomizeGrid_j rnd sizeY i 0 kg = done_with r"
      and rec: "randomizeGrid_i rnd sizeX sizeY (i + 1) r = done_with kg'"
      by (subst (asm) randomizeGrid_i.simps) (auto simp: and_then_eq_done)
    have "grid_inv (snd r)"
      using r "1.prems"(2) by (rule randomizeGrid_j_grid_inv)
    with "1.IH" [OF True _ rec] r show ?thesis
      by (simp add: done_with_def)
  next
    case False
    with "1.prems" show ?thesis
      by (subst (asm) randomizeGrid_i.simps) auto
  qed
qed

lemma iterateGame_cell_writes:
  assumes "iterateGame_cell src trg i j = done_with t"
  shows "\<exists>s e. setCell trg i j s = done_with (e, t)"
  using assms unfolding iterateGame_cell_def and_then_eq_done Let_def
  by (auto split: if_splits)

lemma iterateGame_j_grid_inv:
  "iterateGame_j src sizeY i j trg = done_with t \<Longrightarrow> grid_inv trg \<Longrightarrow> grid_inv t"
proof (induction src sizeY i j trg arbitrary: t rule: iterateGame_j.induct)
  case (1 src sizeY i j trg)
  show ?case
  proof (cases "j < sizeY")
    case True
    from "1.prems"(1) True obtain t1 where t1: "iterateGame_cell src trg i j = done_with t1"
      and rec: "iterateGame_j src sizeY i (j + 1) t1 = done_with t"
      by (subst (asm) iterateGame_j.simps) (auto simp: and_then_eq_done)
    obtain s e where "setCell trg i j s = done_with (e, t1)"
      using iterateGame_cell_writes [OF t1] by blast
    then have "grid_inv t1"
      using "1.prems"(2) by (rule setCell_grid_inv)
    with "1.IH" [OF True _ rec] t1 show ?thesis
      by (simp add: done_with_def)
  next
    case False
    with "1.prems" show ?thesis
      by (subst (asm) iterateGame_j.simps) auto
  qed
qed

lemma iterateGame_i_grid_inv:
  "iterateGame_i src sizeX sizeY i trg = done_with t \<Longrightarrow> grid_inv trg \<Longrightarrow> grid_inv t"
proof (induction src sizeX sizeY i trg arbitrary: t rule: iterateGame_i.induct)
  case (1 src sizeX sizeY i trg)
  show ?case
  proof (cases "i < sizeX")
    case True
    from "1.prems"(1) True obtain t1 where t1: "iterateGame_j src sizeY i 0 trg = done_with t1"
      and rec: "iterateGame_i src sizeX sizeY (i + 1) t1 = done_with t"
      by (subst (asm) iterateGame_i.simps) (auto simp: and_then_eq_done)
    have "grid_inv t1"
      using t1 "1.prems"(2) by (rule iterateGame_j_grid_inv)
    with "1.IH" [OF True _ rec] t1 show ?thesis
      by (simp add: done_with_def)
  next
    case False
    with "1.prems" show ?thesis
      by (subst (asm) iterateGame_i.simps) auto
  qed
qed

lemma iterateGame_game_inv:
  assumes "iterateGame gm = done_with gm'" "game_inv gm"
  shows "game_inv gm'"
proof (cases "currentGridPtr gm")
  case PtrGridA
  with assms(1) obtain t where
    "iterateGame_i (gridA gm) (gridSizeX (gridA gm)) (gridSizeY (gridA gm)) 0 (gridB gm) = done_with t"
    "gm' = gm\<lparr>gridB := t, currentGridPtr := PtrGridB\<rparr>"
    by (auto simp: iterateGame_def and_then_eq_done)
  with assms(2) iterateGame_i_grid_inv [OF this(1)] show ?thesis
    by (simp add: game_inv_def)
next
  case PtrGridB
  with assms(1) obtain t where
    "iterateGame_i (gridB gm) (gridSizeX (gridB gm)) (gridSizeY (gridB gm)) 0 (gridA gm) = done_with t"
    "gm' = gm\<lparr>gridA := t, currentGridPtr := PtrGridA\<rparr>"
    by (auto simp: iterateGame_def and_then_eq_done)
  with assms(2) iterateGame_i_grid_inv [OF this(1)] show ?thesis
    by (simp add: game_inv_def)
next
  case PtrElsewhere
  with assms show ?thesis by (simp add: iterateGame_def)
qed

lemma currentGrid_grid_inv:
  "currentGrid gm = done_with g \<Longrightarrow> game_inv gm \<Longrightarrow> grid_inv g"
  by (cases "currentGridPtr gm") (auto simp: currentGrid_def game_inv_def)

lemma setCurrentGrid_game_inv:
  "game_inv gm \<Longrightarrow> grid_inv g \<Longrightarrow> game_inv (setCurrentGrid gm g)"
  by (cases "currentGridPtr gm") (auto simp: setCurrentGrid_def game_inv_def)

lemma randomizeGame_game_inv:
  assumes "randomizeGame rnd (k, gm) = done_with (k', gm')" "game_inv gm"
  shows "game_inv gm'"
proof -
  from assms(1) obtain g r where g: "currentGrid gm = done_with g"
    and r: "randomizeGrid rnd (k, g) = done_with r" and gm': "gm' = setCurrentGrid gm (snd r)"
    by (auto simp: randomizeGame_def and_then_eq_done)
  have "grid_inv g" using g assms(2) by (rule currentGrid_grid_inv)
  then have "grid_inv (snd r)"
    using randomizeGrid_i_grid_inv [of rnd _ _ 0 "(k, g)" r] r by (simp add: randomizeGrid_def)
  with assms(2) gm' show ?thesis by (simp add: setCurrentGrid_game_inv)
qed

lemma chars_0_or_1_blank: "chars_0_or_1 (blank_grid sizeX sizeY rule)"
  by (auto simp: chars_0_or_1_def blank_grid_def)

lemma grid_inv_blank:
  "0 \<le> sizeX \<Longrightarrow> is_llong sizeX \<Longrightarrow> 0 \<le> sizeY \<Longrightarrow> is_llong sizeY \<Longrightarrow>
     grid_inv (blank_grid sizeX sizeY rule)"
  by (simp add: grid_inv_def grid_wf_blank chars_0_or_1_blank is_llong_def)

lemma createGame_game_inv:
  assumes "createGame mem_game mem_a mem_b sizeX sizeY rule = done_with (LiveGame gm)"
    and "is_llong sizeX" "is_llong sizeY"
  shows "game_inv gm"
proof -
  from assms(1) obtain a b where
    a: "createGrid mem_a sizeX sizeY rule = done_with (Some a)" and
    b: "createGrid mem_b sizeX sizeY rule = done_with (Some b)" and
    gm: "gm = \<lparr>gridA = a, gridB = b, currentGridPtr = PtrGridA\<rparr>"
    by (auto simp: createGame_def and_then_eq_done split: if_splits option.splits)
  from createGrid_Some [OF a] createGrid_Some [OF b] assms(2,3) gm show ?thesis
    by (simp add: game_inv_def grid_inv_blank)
qed

lemma randomizeGrid_grid_inv:
  assumes "randomizeGrid rnd (k, g) = done_with (k', g')" "grid_inv g"
  shows "grid_inv g'"
  using randomizeGrid_i_grid_inv [of rnd _ _ 0 "(k, g)" "(k', g')"] assms
  by (simp add: randomizeGrid_def)

lemma reachable_game_inv: "reachable gm \<Longrightarrow> game_inv gm"
proof (induction rule: reachable.induct)
  case (created sizeX sizeY mem_game mem_a mem_b rule gm)
  then show ?case by (simp add: createGame_game_inv)
next
  case (cell_set_A gm x y s e g')
  from cell_set_A.IH have "grid_inv (gridA gm)" by (simp add: game_inv_def)
  with cell_set_A(2) have "grid_inv g'" by (rule setCell_grid_inv)
  with cell_set_A.IH show ?case by (simp add: game_inv_def)
next
  case (cell_set_B gm x y s e g')
  from cell_set_B.IH have "grid_inv (gridB gm)" by (simp add: game_inv_def)
  with cell_set_B(2) have "grid_inv g'" by (rule setCell_grid_inv)
  with cell_set_B.IH show ?case by (simp add: game_inv_def)
next
  case (randomized gm rnd k k' gm')
  then show ?case by (simp add: randomizeGame_game_inv)
next
  case (iterated gm gm')
  then show ?case by (simp add: iterateGame_game_inv)
qed

lemma reachable_grid_inv: "reachable_grid g \<Longrightarrow> grid_inv g"
proof (induction rule: reachable_grid.induct)
  case (grid_created sizeX sizeY mem_ok rule g)
  from createGrid_Some [OF grid_created(3)] grid_created(1,2) show ?case
    by (simp add: grid_inv_blank)
next
  case (grid_cell_set g x y s e g')
  from grid_cell_set(2) grid_cell_set.IH show ?case by (rule setCell_grid_inv)
next
  case (grid_randomized g rnd k k' g')
  from grid_randomized(2) grid_randomized.IH show ?case by (rule randomizeGrid_grid_inv)
next
  case (grid_A_of_game gm)
  then show ?case using reachable_game_inv [of gm] by (simp add: game_inv_def)
next
  case (grid_B_of_game gm)
  then show ?case using reachable_game_inv [of gm] by (simp add: game_inv_def)
qed

lemma storage_char_0_or_1:
  assumes "grid_inv g" "in_grid g x y"
  shows "storage_char g x y = 0 \<or> storage_char g x y = 1"
proof -
  have wf: "grid_wf g" using assms(1) by (simp add: grid_inv_def)
  note i = in_grid_index [OF wf assms(2)]
  have "origin g ! nat x \<in> set (origin g)" "origin g ! nat x ! nat y \<in> set (origin g ! nat x)"
    using i by simp_all
  then show ?thesis
    using assms(1) by (auto simp: grid_inv_def chars_0_or_1_def storage_char_def)
qed

lemma getCell_bitwise:
  assumes "grid_inv g" "in_grid g x y"
  shows "getCell g x y =
           done_with (if storage_char g x y AND bit_mask 0 = 0 then GOL__CELL_STATE__OFF
                      else GOL__CELL_STATE__ON)"
  using storage_char_0_or_1 [OF assms] assms
  by (auto simp: getCell_inside grid_inv_def)

lemma reachable_example:
  "reachable \<lparr>gridA = with_storage_char (blank_grid 2 2 GOL__OOBR__ALL_OFF) 0 0 1,
              gridB = blank_grid 2 2 GOL__OOBR__ALL_OFF, currentGridPtr = PtrGridA\<rparr>"
proof -
  let ?g = "blank_grid 2 2 GOL__OOBR__ALL_OFF"
  let ?gm = "\<lparr>gridA = ?g, gridB = ?g, currentGridPtr = PtrGridA\<rparr>"
  have "createGame True True True 2 2 GOL__OOBR__ALL_OFF = done_with (LiveGame ?gm)"
    by (simp add: createGame_def createGrid_ok)
  then have r: "reachable ?gm"
    by (rule reachable.created [rotated 2]) simp_all
  have wf: "grid_wf ?g"
    by (simp add: grid_wf_blank LLONG_MAX_def)
  have "setCell (gridA ?gm) 0 0 GOL__CELL_STATE__ON = done_with (0, with_storage_char ?g 0 0 1)"
    using wf by (simp add: setCell_inside in_grid_def storage_char_blank)
  from reachable.cell_set_A [OF r this] show ?thesis
    by simp
qed

lemma truth_test_of_a_char_2:
  "getCell \<lparr>origin = [[2]], gridSizeX = 1, gridSizeY = 1, arraySizeX = 1, arraySizeY = 1,
            outOfBoundsRule = GOL__OOBR__ALL_OFF\<rparr> 0 0 = done_with GOL__CELL_STATE__ON \<and>
   (2 :: c_char) AND bit_mask 0 = 0"
proof -
  have "grid_wf \<lparr>origin = [[2]], gridSizeX = 1, gridSizeY = 1, arraySizeX = 1, arraySizeY = 1,
            outOfBoundsRule = GOL__OOBR__ALL_OFF\<rparr>"
    by (simp add: grid_wf_def LLONG_MAX_def)
  then show ?thesis
    by (simp add: getCell_inside in_grid_def storage_char_def)
qed

text \<open>
  Claim C9. In every grid that the public operations reach (the grids that \<open>createGrid\<close>
  returns, the two grids of the games that \<open>createGame\<close> returns, and the grids that result
  from these by returning calls of \<open>setCell\<close>, \<open>randomizeGrid\<close>, \<open>randomizeGame\<close> and
  \<open>iterateGame\<close>), every storage char holds 0 or 1. For every cell of such a grid, the
  test of \<open>getCell\<close>, which is the logical AND of the whole storage char with the mask,
  therefore agrees with the bitwise test of the bit that the cell is stored in. (The lemma
  \<open>truth_test_of_a_char_2\<close> shows that the two tests differ on a char that holds 2.)
\<close>

theorem storage_chars_hold_0_or_1:
  assumes "reachable_grid g"
  shows "chars_0_or_1 g \<and>
         (\<forall>x y. in_grid g x y \<longrightarrow>
            (storage_char g x y = 0 \<or> storage_char g x y = 1) \<and>
            getCell g x y =
              done_with (if storage_char g x y AND bit_mask 0 = 0 then GOL__CELL_STATE__OFF
                         else GOL__CELL_STATE__ON))"
proof -
  have inv: "grid_inv g"
    using assms by (rule reachable_grid_inv)
  have "(storage_char g x y = 0 \<or> storage_char g x y = 1) \<and>
        getCell g x y =
          done_with (if storage_char g x y AND bit_mask 0 = 0 then GOL__CELL_STATE__OFF
                     else GOL__CELL_STATE__ON)"
    if "in_grid g x y" for x y
    using inv that by (intro conjI storage_char_0_or_1 getCell_bitwise)
  with inv show ?thesis
    by (simp add: grid_inv_def)
qed

theorem storage_chars_hold_0_or_1_witness:
  "chars_0_or_1 (with_storage_char (blank_grid 2 2 GOL__OOBR__ALL_OFF) 0 0 1) \<and>
   in_grid (with_storage_char (blank_grid 2 2 GOL__OOBR__ALL_OFF) 0 0 1) 0 0 \<and>
   getCell (with_storage_char (blank_grid 2 2 GOL__OOBR__ALL_OFF) 0 0 1) 0 0 =
     done_with (if storage_char (with_storage_char (blank_grid 2 2 GOL__OOBR__ALL_OFF) 0 0 1) 0 0
                     AND bit_mask 0 = 0
                then GOL__CELL_STATE__OFF else GOL__CELL_STATE__ON)"
proof -
  have "reachable_grid (with_storage_char (blank_grid 2 2 GOL__OOBR__ALL_OFF) 0 0 1)"
    using reachable_grid.grid_A_of_game [OF reachable_example] by simp
  from storage_chars_hold_0_or_1 [OF this] show ?thesis
    by (simp add: in_grid_def del: bit_mask_0)
qed

end
